theory Spec2Isabelle
  imports
    Main
    "HOL-Library.AList"
    "HOL-Library.Char_ord"
    "HOL-Library.List_Lexorder"
    "HOL-Library.Product_Lexorder"
begin

section \<open>Data model (core/src/types.ts)\<close>

text \<open>
  JavaScript strings are modelled as \<^typ>\<open>string\<close>; timestamps stored in notes are ISO-8601
  strings, as in the source. A JavaScript \<open>number\<close> that carries an order or a count is an
  \<^typ>\<open>int\<close> (the code only ever produces integral orders; the loss of precision of
  doubles beyond \<open>2^53\<close> is outside this model). A JavaScript object used as a dictionary
  (\<open>Record<string, IndexEntry>\<close>) and a \<open>Map\<close> are association lists in insertion
  order with one pair per key: \<^const>\<open>AList.update\<close> overwrites in place or appends, as
  property assignment and \<open>Map.set\<close> do, and \<^const>\<open>AList.delete\<close> removes the key.
\<close>

record Reminder =
  r_id :: string
  r_time :: string
  r_message :: "string option"
  r_acknowledged :: "bool option"

record NoteMeta =
  note_id :: string
  title :: string
  color :: string
  pinned :: bool
  created :: string
  updated :: string
  reminders :: "Reminder list"
  tags :: "string list"
  encrypted :: bool

record Note = NoteMeta +
  content :: string

record IndexEntry =
  order :: int
  e_pinned :: bool
  e_color :: string
  e_title :: string
  e_updated :: string

text \<open>
  The index object. Its property \<open>notes\<close> is a dictionary of entries in a typed index; the
  operations that build an entry by a spread of what a property read returns may put an
  object that is no full entry there, so the type of \<open>notes\<close> is left open.
\<close>

record 'n IndexObject =
  version :: int
  lastSync :: string
  idx_notes :: 'n
  deletedNotes :: "string list"
  idx_tags :: "string list"

type_synonym VaultIndex = "(string \<times> IndexEntry) list IndexObject"

section \<open>Index manager (index-manager.ts)\<close>

definition INDEX_VERSION :: int where
  "INDEX_VERSION = 1"

text \<open>\<open>createEmptyIndex()\<close>; the argument is the clock reading \<open>new Date().toISOString()\<close>.\<close>

definition createEmptyIndex :: "string \<Rightarrow> VaultIndex" where
  "createEmptyIndex now =
     \<lparr>version = INDEX_VERSION, lastSync = now, idx_notes = [], deletedNotes = [], idx_tags = []\<rparr>"

text \<open>\<open>migrateIndex\<close>: \<open>{...createEmptyIndex(), ...oldIndex, version: INDEX_VERSION}\<close>. Every
  field of a typed \<open>VaultIndex\<close> is present in \<open>oldIndex\<close>, so only the version changes.\<close>

definition migrateIndex :: "VaultIndex \<Rightarrow> VaultIndex" where
  "migrateIndex oldIndex = oldIndex\<lparr>version := INDEX_VERSION\<rparr>"

text \<open>\<open>Array.from(new Set(xs))\<close> and \<open>[...new Set(xs)]\<close>: the elements of \<open>xs\<close> in the order
  of their first occurrence.\<close>

fun set_to_array :: "'a list \<Rightarrow> 'a list" where
  "set_to_array [] = []"
| "set_to_array (x # xs) = x # set_to_array (removeAll x xs)"

text \<open>\<open>Math.max(-1, ...Object.values(index.notes).map(e => e.order))\<close>.\<close>

definition maxOrder :: "VaultIndex \<Rightarrow> int" where
  "maxOrder index = fold max (map (order \<circ> snd) (idx_notes index)) (- 1)"

text \<open>\<open>upsertNoteInIndex\<close>. \<open>existingEntry?.order ?? maxOrder + 1\<close> keeps the order of an
  entry that exists and takes \<open>maxOrder + 1\<close> otherwise; \<open>Array.prototype.sort()\<close> without a
  comparator orders strings by their code units, the lexicographic order on \<^typ>\<open>string\<close>.\<close>

definition upsertNoteInIndex :: "VaultIndex \<Rightarrow> Note \<Rightarrow> VaultIndex" where
  "upsertNoteInIndex index note =
     (let existingEntry = map_of (idx_notes index) (note_id note);
          entry = \<lparr>order = (case existingEntry of Some e \<Rightarrow> order e | None \<Rightarrow> maxOrder index + 1),
                   e_pinned = pinned note,
                   e_color = color note,
                   e_title = title note,
                   e_updated = updated note\<rparr>;
          allTags = set_to_array (idx_tags index @ tags note)
      in index\<lparr>idx_notes := AList.update (note_id note) entry (idx_notes index),
               idx_tags := sort allTags\<rparr>)"

text \<open>\<open>removeNoteFromIndex\<close>; \<open>trackDeletion\<close> defaults to \<open>true\<close> at the call sites.\<close>

definition removeNoteFromIndex :: "VaultIndex \<Rightarrow> string \<Rightarrow> bool \<Rightarrow> VaultIndex" where
  "removeNoteFromIndex index noteId trackDeletion =
     index\<lparr>idx_notes := AList.delete noteId (idx_notes index),
            deletedNotes := (if trackDeletion
                             then set_to_array (deletedNotes index @ [noteId])
                             else deletedNotes index)\<rparr>"

text \<open>
  A property read \<open>notes[k]\<close> returns the own property \<open>k\<close> of the dictionary or, failing
  that, what the dictionary inherits: \<open>notes\<close> is a plain object (made by \<open>{}\<close>, by a spread
  or by \<open>JSON.parse\<close>), so under the names of the properties of \<open>Object.prototype\<close> the read
  returns a function, and under \<open>__proto__\<close> the prototype itself. These values are objects
  (truthy) without enumerable properties of their own: an object spread of one of them
  copies nothing. A typed index is taken to have no other prototype than \<open>Object.prototype\<close>.
\<close>

definition Object_prototype :: "string list" where
  "Object_prototype =
     [''constructor'', ''__defineGetter__'', ''__defineSetter__'', ''hasOwnProperty'',
      ''__lookupGetter__'', ''__lookupSetter__'', ''isPrototypeOf'', ''propertyIsEnumerable'',
      ''toString'', ''valueOf'', ''__proto__'', ''toLocaleString'']"

text \<open>An object that stands in the place of an entry at run time: each property of an
  \<open>IndexEntry\<close> may be missing. \<open>entry_object\<close> is a full entry seen as such an object, and
  \<open>no_properties\<close> what the spread of a function or of \<open>Object.prototype\<close> gives.\<close>

record EntryObject =
  o_order :: "int option"
  o_pinned :: "bool option"
  o_color :: "string option"
  o_title :: "string option"
  o_updated :: "string option"

definition entry_object :: "IndexEntry \<Rightarrow> EntryObject" where
  "entry_object e =
     \<lparr>o_order = Some (order e), o_pinned = Some (e_pinned e), o_color = Some (e_color e),
      o_title = Some (e_title e), o_updated = Some (e_updated e)\<rparr>"

definition no_properties :: EntryObject where
  "no_properties = \<lparr>o_order = None, o_pinned = None, o_color = None, o_title = None, o_updated = None\<rparr>"

definition entry_objects :: "(string \<times> IndexEntry) list \<Rightarrow> (string \<times> EntryObject) list" where
  "entry_objects es = map (\<lambda>(k, e). (k, entry_object e)) es"

text \<open>\<open>{...index, notes: x}\<close>.\<close>

definition with_notes :: "'a IndexObject \<Rightarrow> 'b \<Rightarrow> 'b IndexObject" where
  "with_notes index x =
     \<lparr>version = version index, lastSync = lastSync index, idx_notes = x,
      deletedNotes = deletedNotes index, idx_tags = idx_tags index\<rparr>"

text \<open>
  \<open>reorderNotes\<close>: \<open>noteIds.forEach((id, order) => ...)\<close>, the position in the array is the
  new order of an id for which \<open>updatedNotes[id]\<close> is truthy. \<open>updatedNotes\<close> is a fresh
  object that the loop assigns to. For an own property the assignment replaces the entry by
  \<open>{...entry, order}\<close>. For a name inherited from \<open>Object.prototype\<close> it makes an own
  property \<open>{order}\<close>, except under \<open>__proto__\<close>: there the assignment goes to the setter,
  which makes \<open>{order}\<close> the prototype of \<open>updatedNotes\<close> (\<open>prototype\<close> below holds that
  order; \<open>None\<close> is \<open>Object.prototype\<close>). Once that has happened the read of the name
  \<open>order\<close> returns the number of the prototype, truthy unless it is 0, and the assignment
  makes the own property \<open>{order}\<close>.
\<close>

record NotesObject =
  properties :: "(string \<times> EntryObject) list"
  prototype :: "int option"

definition reorder_step :: "int \<Rightarrow> string \<Rightarrow> NotesObject \<Rightarrow> NotesObject" where
  "reorder_step i k updatedNotes =
     (case map_of (properties updatedNotes) k of
        Some e \<Rightarrow>
          updatedNotes\<lparr>properties := AList.update k (e\<lparr>o_order := Some i\<rparr>) (properties updatedNotes)\<rparr>
      | None \<Rightarrow>
          if k = ''__proto__'' then updatedNotes\<lparr>prototype := Some i\<rparr>
          else if k \<in> set Object_prototype \<or>
                  (k = ''order'' \<and> prototype updatedNotes \<noteq> None \<and> prototype updatedNotes \<noteq> Some 0)
          then updatedNotes\<lparr>properties :=
                 AList.update k (no_properties\<lparr>o_order := Some i\<rparr>) (properties updatedNotes)\<rparr>
          else updatedNotes)"

fun reorder_from :: "int \<Rightarrow> string list \<Rightarrow> NotesObject \<Rightarrow> NotesObject" where
  "reorder_from i [] updatedNotes = updatedNotes"
| "reorder_from i (k # ks) updatedNotes = reorder_from (i + 1) ks (reorder_step i k updatedNotes)"

definition reorderNotes :: "VaultIndex \<Rightarrow> string list \<Rightarrow> NotesObject IndexObject" where
  "reorderNotes index noteIds =
     with_notes index
       (reorder_from 0 noteIds \<lparr>properties = entry_objects (idx_notes index), prototype = None\<rparr>)"

text \<open>\<open>getSortedNotes\<close>: the comparator puts pinned entries first and then compares orders;
  \<open>Array.prototype.sort\<close> is stable, as \<^const>\<open>sort_key\<close> is.\<close>

definition getSortedNotes :: "VaultIndex \<Rightarrow> (string \<times> IndexEntry) list" where
  "getSortedNotes index = sort_key (\<lambda>(k, e). (\<not> e_pinned e, order e)) (idx_notes index)"

text \<open>
  \<open>updateNoteColor\<close> and \<open>toggleNotePinned\<close>: \<open>if (!index.notes[noteId]) return index\<close>, then
  an object literal with the entry \<open>{...index.notes[noteId], color}\<close> under the computed key
  (an own property under every name). Under a name inherited from \<open>Object.prototype\<close> the
  test passes, the spread copies nothing, and \<open>!index.notes[noteId].pinned\<close> is \<open>true\<close>.
\<close>

definition updateNoteColor :: "VaultIndex \<Rightarrow> string \<Rightarrow> string \<Rightarrow> (string \<times> EntryObject) list IndexObject" where
  "updateNoteColor index noteId c =
     (case map_of (idx_notes index) noteId of
        Some e \<Rightarrow>
          with_notes index
            (AList.update noteId ((entry_object e)\<lparr>o_color := Some c\<rparr>) (entry_objects (idx_notes index)))
      | None \<Rightarrow>
          if noteId \<in> set Object_prototype
          then with_notes index
                 (AList.update noteId (no_properties\<lparr>o_color := Some c\<rparr>) (entry_objects (idx_notes index)))
          else with_notes index (entry_objects (idx_notes index)))"

definition toggleNotePinned :: "VaultIndex \<Rightarrow> string \<Rightarrow> (string \<times> EntryObject) list IndexObject" where
  "toggleNotePinned index noteId =
     (case map_of (idx_notes index) noteId of
        Some e \<Rightarrow>
          with_notes index
            (AList.update noteId ((entry_object e)\<lparr>o_pinned := Some (\<not> e_pinned e)\<rparr>)
               (entry_objects (idx_notes index)))
      | None \<Rightarrow>
          if noteId \<in> set Object_prototype
          then with_notes index
                 (AList.update noteId (no_properties\<lparr>o_pinned := Some True\<rparr>) (entry_objects (idx_notes index)))
          else with_notes index (entry_objects (idx_notes index)))"

text \<open>\<open>rebuildIndex(notes)\<close>: a fresh index from \<open>createEmptyIndex()\<close>, one entry per note
  (pinned notes take the orders \<open>-1000 + i\<close>), then the orders are normalised to the position
  in \<open>getSortedNotes\<close>. The entries are assigned (\<open>index.notes[note.id] = ...\<close>), so the
  entry of a note whose id is \<open>__proto__\<close> goes to the setter and becomes the prototype of
  \<open>notes\<close>, not a property: \<open>Object.entries\<close> and \<open>JSON.stringify\<close> do not see it, and it
  is not among the entries here.\<close>

fun rebuild_entries :: "int \<Rightarrow> Note list \<Rightarrow> (string \<times> IndexEntry) list \<Rightarrow> (string \<times> IndexEntry) list" where
  "rebuild_entries i [] acc = acc"
| "rebuild_entries i (note # ns) acc =
     rebuild_entries (i + 1) ns
       (if note_id note = ''__proto__'' then acc
        else AList.update (note_id note)
               \<lparr>order = (if pinned note then - 1000 + i else i),
                e_pinned = pinned note,
                e_color = color note,
                e_title = title note,
                e_updated = updated note\<rparr> acc)"

fun normalize_orders :: "int \<Rightarrow> string list \<Rightarrow> (string \<times> IndexEntry) list \<Rightarrow> (string \<times> IndexEntry) list" where
  "normalize_orders i [] acc = acc"
| "normalize_orders i (k # ks) acc =
     normalize_orders (i + 1) ks (AList.map_entry k (\<lambda>e. e\<lparr>order := i\<rparr>) acc)"

definition rebuildIndex :: "string \<Rightarrow> Note list \<Rightarrow> VaultIndex" where
  "rebuildIndex now ns =
     (let index = (createEmptyIndex now)\<lparr>idx_notes := rebuild_entries 0 ns []\<rparr>;
          sorted = getSortedNotes index
      in index\<lparr>idx_notes := normalize_orders 0 (map fst sorted) (idx_notes index),
               idx_tags := sort (set_to_array (concat (map tags ns)))\<rparr>)"

section \<open>JavaScript strings\<close>

text \<open>
  A JavaScript string is a sequence of UTF-16 code units; the model covers the strings whose
  code units are below 256 and writes them as \<^typ>\<open>string\<close>. In that range the regular
  expression class \<open>\s\<close> and \<open>String.prototype.trim\<close> know the seven characters of
  \<open>is_space\<close>, the class \<open>.\<close> excludes the two line terminators of
  \<open>is_line_terminator\<close>, \<open>\d\<close> is an ASCII digit, and the flag \<open>i\<close> identifies only the
  ASCII letters that differ in case.
\<close>

definition is_space :: "char \<Rightarrow> bool" where
  "is_space c = (c \<in> set [CHR 0x09, CHR 0x0A, CHR 0x0B, CHR 0x0C, CHR 0x0D, CHR 0x20, CHR 0xA0])"

definition is_line_terminator :: "char \<Rightarrow> bool" where
  "is_line_terminator c = (c = CHR 0x0A \<or> c = CHR 0x0D)"

definition is_digit :: "char \<Rightarrow> bool" where
  "is_digit c = (CHR ''0'' \<le> c \<and> c \<le> CHR ''9'')"

definition ascii_lower :: "char \<Rightarrow> char" where
  "ascii_lower c =
     (if CHR ''A'' \<le> c \<and> c \<le> CHR ''Z'' then char_of (of_char c + (32::nat)) else c)"

text \<open>Equality of a text with a literal of the pattern under the flag \<open>i\<close>.\<close>

definition ci_eq :: "string \<Rightarrow> string \<Rightarrow> bool" where
  "ci_eq s lit = (map ascii_lower s = map ascii_lower lit)"

text \<open>\<open>s.split(sep)\<close> for a one-character separator and \<open>parts.join(sep)\<close>.\<close>

fun split_on :: "char \<Rightarrow> string \<Rightarrow> string list" where
  "split_on sep [] = [[]]"
| "split_on sep (c # cs) =
     (if c = sep then [] # split_on sep cs
      else (case split_on sep cs of
              [] \<Rightarrow> [[c]]
            | p # ps \<Rightarrow> (c # p) # ps))"

fun join_with :: "string \<Rightarrow> string list \<Rightarrow> string" where
  "join_with sep [] = []"
| "join_with sep [p] = p"
| "join_with sep (p # q # ps) = p @ sep @ join_with sep (q # ps)"

text \<open>\<open>s.trim()\<close>.\<close>

definition trim :: "string \<Rightarrow> string" where
  "trim s = rev (dropWhile is_space (rev (dropWhile is_space s)))"

section \<open>Note parser (parser.ts): checkboxes and file names\<close>

text \<open>
  The pattern \<open>/^(\s*[-*]\s+\[)([ xX])(\]\s+.*)$/\<close> of \<open>toggleCheckbox\<close>, read left to right.
  A bullet and a bracket are not white space, so each run \<open>\s*\<close>, \<open>\s+\<close> before them is
  the whole run of white space found there; after the closing bracket the pattern wants one
  white-space character at least and then no line terminator up to the end, and the split
  that leaves the least for \<open>.*\<close> is the one after the whole run. The result is the three
  captures.
\<close>

definition checkbox_match :: "string \<Rightarrow> (string \<times> char \<times> string) option" where
  "checkbox_match line =
     (let ws1 = takeWhile is_space line; r1 = dropWhile is_space line in
      case r1 of
        [] \<Rightarrow> None
      | b # r2 \<Rightarrow>
          if b \<noteq> CHR ''-'' \<and> b \<noteq> CHR ''*'' then None
          else
            (let ws2 = takeWhile is_space r2; r3 = dropWhile is_space r2 in
             if ws2 = [] then None
             else
               (case r3 of
                  ob # m # cb # r4 \<Rightarrow>
                    if ob = CHR ''['' \<and> (m = CHR '' '' \<or> m = CHR ''x'' \<or> m = CHR ''X'') \<and>
                       cb = CHR '']'' \<and> takeWhile is_space r4 \<noteq> [] \<and>
                       \<not> list_ex is_line_terminator (dropWhile is_space r4)
                    then Some (ws1 @ [b] @ ws2 @ [ob], m, cb # r4)
                    else None
                | _ \<Rightarrow> None)))"

text \<open>\<open>toggleCheckbox(content, lineIndex)\<close> for an integral \<open>lineIndex\<close>.\<close>

definition toggleCheckbox :: "string \<Rightarrow> int \<Rightarrow> string" where
  "toggleCheckbox c lineIndex =
     (let lines = split_on CHR 0x0A c in
      if lineIndex < 0 \<or> lineIndex \<ge> int (length lines) then c
      else
        (let line = lines ! nat lineIndex in
         case checkbox_match line of
           Some (m1, m2, m3) \<Rightarrow>
             (let isChecked = (ascii_lower m2 = CHR ''x'') in
              join_with [CHR 0x0A]
                (lines[nat lineIndex := m1 @ [if isChecked then CHR '' '' else CHR ''x''] @ m3]))
         | None \<Rightarrow> join_with [CHR 0x0A] lines))"

text \<open>
  Two notions for stating what a toggle does: the marker the code writes in place of \<open>m\<close>,
  and the contents whose line \<open>lineIndex\<close> is a checkbox with the upper-case marker.
\<close>

definition flip_marker :: "char \<Rightarrow> char" where
  "flip_marker m = (if ascii_lower m = CHR ''x'' then CHR '' '' else CHR ''x'')"

definition upper_marker :: "string \<Rightarrow> int \<Rightarrow> bool" where
  "upper_marker c lineIndex =
     (let lines = split_on CHR 0x0A c in
      0 \<le> lineIndex \<and> lineIndex < int (length lines) \<and>
      (case checkbox_match (lines ! nat lineIndex) of
         Some (m1, m, m3) \<Rightarrow> m = CHR ''X''
       | None \<Rightarrow> False))"

text \<open>The identifier shape \<open>/^[a-f0-9-]{36}$/i\<close>.\<close>

definition is_hex_or_dash :: "char \<Rightarrow> bool" where
  "is_hex_or_dash c =
     ((CHR ''a'' \<le> ascii_lower c \<and> ascii_lower c \<le> CHR ''f'') \<or> is_digit c \<or> c = CHR ''-'')"

definition uuid_shape :: "string \<Rightarrow> bool" where
  "uuid_shape s = (length s = 36 \<and> list_all is_hex_or_dash s)"

text \<open>\<open>getNoteFilename\<close> and \<open>extractNoteId\<close> (\<open>/^([a-f0-9-]{36})\.md$/i\<close>).\<close>

definition getNoteFilename :: "string \<Rightarrow> string" where
  "getNoteFilename noteId = noteId @ ''.md''"

definition extractNoteId :: "string \<Rightarrow> string option" where
  "extractNoteId filename =
     (if uuid_shape (take 36 filename) \<and> ci_eq (drop 36 filename) ''.md''
      then Some (take 36 filename) else None)"

section \<open>Conflict resolver (conflict-resolver.ts)\<close>

text \<open>The date \<open>\d{4}-\d{2}-\d{2}\<close>.\<close>

definition is_date :: "string \<Rightarrow> bool" where
  "is_date s =
     (length s = 10 \<and> list_all is_digit (take 4 s) \<and> s ! 4 = CHR ''-'' \<and>
      list_all is_digit (take 2 (drop 5 s)) \<and> s ! 7 = CHR ''-'' \<and>
      list_all is_digit (drop 8 s))"

text \<open>
  What \<open>DROPBOX_CONFLICT_PATTERN\<close> wants after its first capture:
  \<open>\s+\((.+)'s conflicted copy (\d{4}-\d{2}-\d{2})\)\.md$\<close>. The parenthesis is not white
  space, so \<open>\s+\<close> is the whole run before it; the text after the second capture has 33
  characters, so the second capture is what stands between the parenthesis and these.
\<close>

definition dropbox_tail :: "string \<Rightarrow> bool" where
  "dropbox_tail rest =
     (let ws = takeWhile is_space rest; r = dropWhile is_space rest in
      ws \<noteq> [] \<and>
      (case r of
         [] \<Rightarrow> False
       | p # body \<Rightarrow>
           p = CHR ''('' \<and> length body > 33 \<and>
           (let actor = take (length body - 33) body; t = drop (length body - 33) body in
            \<not> list_ex is_line_terminator actor \<and>
            ci_eq (take 19 t) (CHR 0x27 # ''s conflicted copy '') \<and>
            is_date (take 10 (drop 19 t)) \<and>
            ci_eq (drop 29 t) '').md'')))"

text \<open>
  After the first capture of \<open>ALT_CONFLICT_PATTERN\<close>:
  \<open>\s+\(conflicted copy \d{4}-\d{2}-\d{2}\s+\d+\)\.md$\<close>.
\<close>

definition alt_tail :: "string \<Rightarrow> bool" where
  "alt_tail rest =
     (let ws = takeWhile is_space rest; r = dropWhile is_space rest in
      ws \<noteq> [] \<and>
      (case r of
         [] \<Rightarrow> False
       | p # body \<Rightarrow>
           p = CHR ''('' \<and> ci_eq (take 16 body) ''conflicted copy '' \<and>
           is_date (take 10 (drop 16 body)) \<and>
           (let r2 = drop 26 body;
                ws2 = takeWhile is_space r2; r3 = dropWhile is_space r2;
                ds = takeWhile is_digit r3; r4 = dropWhile is_digit r3
            in ws2 \<noteq> [] \<and> ds \<noteq> [] \<and> ci_eq r4 '').md'')))"

text \<open>
  The first capture \<open>^(.+)\<close> is greedy: the matcher tries the longest prefix without a line
  terminator first and gives back one character at a time until the rest of the pattern
  matches. \<open>greedy_capture tail k f\<close> tries the prefixes of length \<open>k\<close> down to 1 and
  returns the capture of the first match.
\<close>

fun greedy_capture :: "(string \<Rightarrow> bool) \<Rightarrow> nat \<Rightarrow> string \<Rightarrow> string option" where
  "greedy_capture tail 0 f = None"
| "greedy_capture tail (Suc k) f =
     (if \<not> list_ex is_line_terminator (take (Suc k) f) \<and> tail (drop (Suc k) f)
      then Some (take (Suc k) f)
      else greedy_capture tail k f)"

text \<open>\<open>filename.match(PATTERN)\<close>, reduced to \<open>match[1]\<close>, the one capture the code reads.\<close>

definition DROPBOX_CONFLICT_PATTERN :: "string \<Rightarrow> string option" where
  "DROPBOX_CONFLICT_PATTERN filename = greedy_capture dropbox_tail (length filename) filename"

definition ALT_CONFLICT_PATTERN :: "string \<Rightarrow> string option" where
  "ALT_CONFLICT_PATTERN filename = greedy_capture alt_tail (length filename) filename"

definition isConflictFile :: "string \<Rightarrow> bool" where
  "isConflictFile filename =
     (DROPBOX_CONFLICT_PATTERN filename \<noteq> None \<or> ALT_CONFLICT_PATTERN filename \<noteq> None)"

text \<open>\<open>filename.match(DROPBOX_CONFLICT_PATTERN) || filename.match(ALT_CONFLICT_PATTERN)\<close>.\<close>

definition conflict_match :: "string \<Rightarrow> string option" where
  "conflict_match filename =
     (case DROPBOX_CONFLICT_PATTERN filename of
        Some g \<Rightarrow> Some g
      | None \<Rightarrow> ALT_CONFLICT_PATTERN filename)"

definition getOriginalIdFromConflict :: "string \<Rightarrow> string option" where
  "getOriginalIdFromConflict filename =
     (case conflict_match filename of
        Some originalName \<Rightarrow> if uuid_shape originalName then Some originalName else None
      | None \<Rightarrow> None)"

section \<open>Vault manager (vault-manager.ts)\<close>

text \<open>
  The state of a \<open>VaultManager\<close>: the index, the note cache (a \<open>Map\<close> keyed by note id),
  the note files of the notes directory (file name to content), the index file (as the value
  \<open>JSON.stringify\<close> printed) and the events emitted so far, oldest first.
\<close>

datatype VaultEvent = NoteCreated Note | NoteUpdated Note | NoteDeleted string

record Vault =
  v_index :: "VaultIndex option"
  v_notes :: "(string \<times> Note) list"
  note_files :: "(string \<times> string) list"
  index_file :: "VaultIndex option"
  emitted :: "VaultEvent list"

text \<open>
  What an operation reads from outside the vault. \<open>stringify\<close> is
  \<open>matter.stringify(content, meta)\<close> of the gray-matter library, which is not part of the
  repository; it returns the text or throws (\<open>None\<close>), as its YAML printer does on a
  property that holds \<open>undefined\<close>: a reminder read by \<open>parseReminders\<close> without a message
  has the key \<open>message\<close> with that value. \<open>write_ok\<close> tells whether \<open>fs.writeFile\<close> on a
  file of the notes directory succeeds; \<open>listeners_ok\<close> tells whether the listeners
  registered with the manager return on an event (one that throws makes \<open>emit\<close> throw); the
  three clock readings are those of \<open>new Date().toISOString()\<close> in the operation itself, in
  \<open>serializeNote\<close> and in \<open>saveIndex\<close>.
\<close>

record VaultEnv =
  stringify :: "string \<Rightarrow> NoteMeta \<Rightarrow> string option"
  write_ok :: "string \<Rightarrow> bool"
  listeners_ok :: "VaultEvent \<Rightarrow> bool"
  now_op :: string
  now_serialize :: string
  now_save :: string

text \<open>An \<open>async\<close> method returns a value or rejects.\<close>

datatype 'a outcome = Returned 'a | Threw

text \<open>\<open>serializeNote(note)\<close>: the metadata without the content, \<open>updated\<close> stamped with the
  clock, handed to the library; a throw of the library passes through (\<open>None\<close>).\<close>

definition serializeNote :: "(string \<Rightarrow> NoteMeta \<Rightarrow> string option) \<Rightarrow> string \<Rightarrow> Note \<Rightarrow> string option" where
  "serializeNote stringify_fn now note =
     (let meta = (NoteMeta.truncate note)\<lparr>updated := now\<rparr>
      in stringify_fn (content note) meta)"

text \<open>
  The argument of \<open>updateNote\<close> at run time: an object that may carry any of the keys of a
  note (the type \<open>Partial<Omit<Note, 'id' | 'created'>>\<close> is erased, so \<open>id\<close> and
  \<open>created\<close> may be there as well). \<open>None\<close> is an absent key.
\<close>

record NoteUpdates =
  u_id :: "string option"
  u_title :: "string option"
  u_color :: "string option"
  u_pinned :: "bool option"
  u_created :: "string option"
  u_updated :: "string option"
  u_reminders :: "Reminder list option"
  u_tags :: "string list option"
  u_encrypted :: "bool option"
  u_content :: "string option"

definition no_updates :: NoteUpdates where
  "no_updates = \<lparr>u_id = None, u_title = None, u_color = None, u_pinned = None, u_created = None,
     u_updated = None, u_reminders = None, u_tags = None, u_encrypted = None, u_content = None\<rparr>"

text \<open>The object spread \<open>{...existing, ...updates}\<close>.\<close>

definition spread :: "Note \<Rightarrow> NoteUpdates \<Rightarrow> Note" where
  "spread existing updates =
     \<lparr>note_id = (case u_id updates of Some x \<Rightarrow> x | None \<Rightarrow> note_id existing),
      title = (case u_title updates of Some x \<Rightarrow> x | None \<Rightarrow> title existing),
      color = (case u_color updates of Some x \<Rightarrow> x | None \<Rightarrow> color existing),
      pinned = (case u_pinned updates of Some x \<Rightarrow> x | None \<Rightarrow> pinned existing),
      created = (case u_created updates of Some x \<Rightarrow> x | None \<Rightarrow> created existing),
      updated = (case u_updated updates of Some x \<Rightarrow> x | None \<Rightarrow> updated existing),
      reminders = (case u_reminders updates of Some x \<Rightarrow> x | None \<Rightarrow> reminders existing),
      tags = (case u_tags updates of Some x \<Rightarrow> x | None \<Rightarrow> tags existing),
      encrypted = (case u_encrypted updates of Some x \<Rightarrow> x | None \<Rightarrow> encrypted existing),
      content = (case u_content updates of Some x \<Rightarrow> x | None \<Rightarrow> content existing)\<rparr>"

text \<open>\<open>saveIndex\<close>: stamps \<open>lastSync\<close> on the index object (the one the manager holds) and
  then writes the file; a failed write rejects after the stamp.\<close>

definition saveIndex :: "VaultEnv \<Rightarrow> VaultIndex \<Rightarrow> Vault \<Rightarrow> unit outcome \<times> Vault" where
  "saveIndex env index v =
     (let index' = index\<lparr>lastSync := now_save env\<rparr> in
      if write_ok env ''index.json''
      then (Returned (), v\<lparr>v_index := Some index', index_file := Some index'\<rparr>)
      else (Threw, v\<lparr>v_index := Some index'\<rparr>))"

text \<open>\<open>this.emit(event)\<close>: the event reaches the listeners; the call throws when one of
  them does.\<close>

definition emit :: "VaultEnv \<Rightarrow> VaultEvent \<Rightarrow> Vault \<Rightarrow> unit outcome \<times> Vault" where
  "emit env event v =
     (if listeners_ok env event then Returned () else Threw, v\<lparr>emitted := emitted v @ [event]\<rparr>)"

text \<open>\<open>VaultManager.updateNote(noteId, updates)\<close>. The method rejects when \<open>serializeNote\<close>
  throws (nothing is written then), when a file cannot be written and when a listener
  throws.\<close>

definition updateNote :: "VaultEnv \<Rightarrow> string \<Rightarrow> NoteUpdates \<Rightarrow> Vault \<Rightarrow> Note option outcome \<times> Vault" where
  "updateNote env noteId updates v =
     (case map_of (v_notes v) noteId of
        None \<Rightarrow> (Returned None, v)
      | Some existing \<Rightarrow>
          (let updated_note = (spread existing updates)
                 \<lparr>note_id := noteId, created := created existing, updated := now_op env\<rparr>
           in case serializeNote (stringify env) (now_serialize env) updated_note of
                None \<Rightarrow> (Threw, v)
              | Some text_out \<Rightarrow>
                  if \<not> write_ok env (getNoteFilename noteId) then (Threw, v)
                  else
                    (let v1 = v\<lparr>note_files := AList.update (getNoteFilename noteId) text_out (note_files v),
                                v_notes := AList.update noteId updated_note (v_notes v)\<rparr>
                     in case v_index v1 of
                          None \<Rightarrow>
                            (case emit env (NoteUpdated updated_note) v1 of
                               (Threw, v3) \<Rightarrow> (Threw, v3)
                             | (Returned u, v3) \<Rightarrow> (Returned (Some updated_note), v3))
                        | Some index \<Rightarrow>
                            (case saveIndex env (upsertNoteInIndex index updated_note) v1 of
                               (Threw, v2) \<Rightarrow> (Threw, v2)
                             | (Returned u, v2) \<Rightarrow>
                                 (case emit env (NoteUpdated updated_note) v2 of
                                    (Threw, v3) \<Rightarrow> (Threw, v3)
                                  | (Returned u, v3) \<Rightarrow> (Returned (Some updated_note), v3))))))"

text \<open>\<open>VaultManager.togglePinned\<close> and \<open>VaultManager.toggleCheckbox\<close> go through
  \<open>updateNote\<close>.\<close>

definition togglePinned :: "VaultEnv \<Rightarrow> string \<Rightarrow> Vault \<Rightarrow> Note option outcome \<times> Vault" where
  "togglePinned env noteId v =
     (case map_of (v_notes v) noteId of
        None \<Rightarrow> (Returned None, v)
      | Some note \<Rightarrow> updateNote env noteId (no_updates\<lparr>u_pinned := Some (\<not> pinned note)\<rparr>) v)"

definition vault_toggleCheckbox :: "VaultEnv \<Rightarrow> string \<Rightarrow> int \<Rightarrow> Vault \<Rightarrow> Note option outcome \<times> Vault" where
  "vault_toggleCheckbox env noteId lineIndex v =
     (case map_of (v_notes v) noteId of
        None \<Rightarrow> (Returned None, v)
      | Some note \<Rightarrow>
          updateNote env noteId
            (no_updates\<lparr>u_content := Some (toggleCheckbox (content note) lineIndex)\<rparr>) v)"

text \<open>
  \<open>VaultManager.rebuildIndex()\<close>. \<open>loadAllNotes\<close> reads the notes directory again and puts
  every note it can parse into the cache; \<open>loaded\<close> are the notes it read, in directory
  order (parsing is the library's). The index is then replaced by \<open>rebuildIndex\<close> of the
  cached notes and saved.
\<close>

definition vault_rebuildIndex :: "VaultEnv \<Rightarrow> Note list \<Rightarrow> Vault \<Rightarrow> VaultIndex outcome \<times> Vault" where
  "vault_rebuildIndex env loaded v =
     (let cache = fold (\<lambda>n m. AList.update (note_id n) n m) loaded (v_notes v);
          index = rebuildIndex (now_op env) (map snd cache)
      in case saveIndex env index (v\<lparr>v_notes := cache, v_index := Some index\<rparr>) of
           (Threw, v') \<Rightarrow> (Threw, v')
         | (Returned u, v') \<Rightarrow> (Returned (index\<lparr>lastSync := now_save env\<rparr>), v'))"

text \<open>The cache of a vault is keyed by the ids of its notes: every operation stores a note
  under \<open>note.id\<close>.\<close>

definition cache_keyed :: "Vault \<Rightarrow> bool" where
  "cache_keyed v = (\<forall>(k, n) \<in> set (v_notes v). note_id n = k)"

section \<open>Concrete data for the worked examples\<close>

definition ex_entry :: "int \<Rightarrow> IndexEntry" where
  "ex_entry k =
     \<lparr>order = k, e_pinned = False, e_color = ''#FFE066'', e_title = ''a'',
      e_updated = ''2024-01-01T00:00:00.000Z''\<rparr>"

definition ex_index :: "(string \<times> IndexEntry) list \<Rightarrow> string list \<Rightarrow> string list \<Rightarrow> VaultIndex" where
  "ex_index es ds ts =
     \<lparr>version = 1, lastSync = ''2024-01-01T00:00:00.000Z'', idx_notes = es,
      deletedNotes = ds, idx_tags = ts\<rparr>"

definition ex_note :: "string \<Rightarrow> string \<Rightarrow> Note" where
  "ex_note k c =
     \<lparr>note_id = k, title = ''A'', color = ''#FFE066'', pinned = False,
      created = ''2024-01-01T00:00:00.000Z'', updated = ''2024-01-02T00:00:00.000Z'',
      reminders = [], tags = [''work''], encrypted = False, content = c\<rparr>"

definition ex_env :: VaultEnv where
  "ex_env =
     \<lparr>stringify = (\<lambda>c m. Some c), write_ok = (\<lambda>f. True), listeners_ok = (\<lambda>e. True),
      now_op = ''2024-03-01T10:00:00.000Z'', now_serialize = ''2024-03-01T10:00:00.001Z'',
      now_save = ''2024-03-01T10:00:00.002Z''\<rparr>"

definition ex_vault :: "VaultIndex \<Rightarrow> (string \<times> Note) list \<Rightarrow> Vault" where
  "ex_vault index cache =
     \<lparr>v_index = Some index, v_notes = cache, note_files = [], index_file = None, emitted = []\<rparr>"

section \<open>Note parser (parser.ts): parseNote and the front-matter library\<close>

text \<open>
  \<open>parseNote\<close> and \<open>serializeNote\<close> hand the text to the gray-matter library, which is
  not part of the repository: \<open>matter(fileContent)\<close> returns the YAML data of the metadata
  block and the remaining content, or throws; it is a parameter of the model. The data is a
  JavaScript value: \<open>null\<close>, a boolean, a number (integers only in this model), a string, an
  array or an object.
\<close>

datatype yaml =
    YNull
  | YBool bool
  | YNum int
  | YStr string
  | YSeq "yaml list"
  | YMap "(string \<times> yaml) list"

datatype parse_error = LibraryError | TypeError

text \<open>JavaScript truthiness, as \<open>||\<close>, \<open>?:\<close> and \<open>Boolean(x)\<close> read it. A property that is
  absent reads as \<open>undefined\<close>, which is falsy.\<close>

fun truthy :: "yaml \<Rightarrow> bool" where
  "truthy YNull = False"
| "truthy (YBool b) = b"
| "truthy (YNum k) = (k \<noteq> 0)"
| "truthy (YStr s) = (s \<noteq> [])"
| "truthy (YSeq xs) = True"
| "truthy (YMap kvs) = True"

definition truthy_opt :: "yaml option \<Rightarrow> bool" where
  "truthy_opt v = (case v of None \<Rightarrow> False | Some x \<Rightarrow> truthy x)"

text \<open>\<open>v || d\<close> for a property \<open>v\<close> that may be absent.\<close>

definition or_default :: "yaml option \<Rightarrow> yaml \<Rightarrow> yaml" where
  "or_default v d = (case v of None \<Rightarrow> d | Some x \<Rightarrow> if truthy x then x else d)"

text \<open>\<open>data.key\<close>: a property of an object; other values have none of the properties the
  parser reads.\<close>

fun prop_of :: "yaml \<Rightarrow> string \<Rightarrow> yaml option" where
  "prop_of (YMap kvs) k = map_of kvs k"
| "prop_of v k = None"

text \<open>\<open>String(v)\<close>: the decimal digits of a number, the elements of an array joined by commas
  (\<open>null\<close> printing as nothing).\<close>

fun digits_of :: "nat \<Rightarrow> string" where
  "digits_of k = (if k < 10 then [char_of (48 + k)] else digits_of (k div 10) @ [char_of (48 + k mod 10)])"

fun js_String :: "yaml \<Rightarrow> string" where
  "js_String YNull = ''null''"
| "js_String (YBool b) = (if b then ''true'' else ''false'')"
| "js_String (YNum k) = (if k < 0 then CHR ''-'' # digits_of (nat (- k)) else digits_of (nat k))"
| "js_String (YStr s) = s"
| "js_String (YSeq xs) = join_with '','' (map (\<lambda>x. if x = YNull then [] else js_String x) xs)"
| "js_String (YMap kvs) = ''[object Object]''"

text \<open>
  The note \<open>parseNote\<close> builds. The type \<open>Note\<close> promises strings, but \<open>data.id || uuidv4()\<close>
  and its like pass on whatever the YAML held, so these fields are JavaScript values here;
  the reminders are made of \<open>String(...)\<close> and \<open>Boolean(...)\<close> and have their types.
\<close>

record RawNote =
  raw_id :: yaml
  raw_title :: yaml
  raw_color :: yaml
  raw_pinned :: bool
  raw_created :: yaml
  raw_updated :: yaml
  raw_reminders :: "Reminder list"
  raw_tags :: "yaml list"
  raw_encrypted :: bool
  raw_content :: string

text \<open>The defaults of \<open>DEFAULT_NOTE_META\<close>.\<close>

definition DEFAULT_title :: string where "DEFAULT_title = ''Untitled Note''"
definition DEFAULT_color :: string where "DEFAULT_color = ''#FFE066''"

text \<open>
  \<open>parseReminders\<close>. The array is filtered for objects (arrays are objects too), and each
  becomes a reminder. \<open>uuidv4\<close> and the clock are read once per use; \<open>uuidv4 k\<close> and
  \<open>clock k\<close> are what the read for the \<open>k\<close>-th place returns (place 0 is the note itself,
  place \<open>i + 1\<close> the \<open>i\<close>-th reminder).
\<close>

fun is_object :: "yaml \<Rightarrow> bool" where
  "is_object (YSeq xs) = True"
| "is_object (YMap kvs) = True"
| "is_object v = False"

definition parseReminder :: "(nat \<Rightarrow> string) \<Rightarrow> (nat \<Rightarrow> string) \<Rightarrow> nat \<Rightarrow> yaml \<Rightarrow> Reminder" where
  "parseReminder clock uuidv4 k r =
     \<lparr>r_id = js_String (or_default (prop_of r ''id'') (YStr (uuidv4 k))),
      r_time = js_String (or_default (prop_of r ''time'') (YStr (clock k))),
      r_message = (case prop_of r ''message'' of
                     Some m \<Rightarrow> if truthy m then Some (js_String m) else None
                   | None \<Rightarrow> None),
      r_acknowledged = Some (truthy_opt (prop_of r ''acknowledged''))\<rparr>"

definition parseReminders :: "(nat \<Rightarrow> string) \<Rightarrow> (nat \<Rightarrow> string) \<Rightarrow> yaml option \<Rightarrow> Reminder list" where
  "parseReminders clock uuidv4 remindersData =
     (case remindersData of
        Some (YSeq rs) \<Rightarrow>
          (let objs = filter is_object rs
           in map (\<lambda>(i, r). parseReminder clock uuidv4 (Suc i) r) (enumerate 0 objs))
      | _ \<Rightarrow> [])"

text \<open>\<open>parseNote(fileContent)\<close>. A throw of the library passes through; reading a property
  of \<open>null\<close> is a \<open>TypeError\<close>.\<close>

definition parseNote ::
  "(string \<Rightarrow> parse_error + yaml \<times> string) \<Rightarrow> (nat \<Rightarrow> string) \<Rightarrow> (nat \<Rightarrow> string) \<Rightarrow>
   string \<Rightarrow> parse_error + RawNote" where
  "parseNote matter clock uuidv4 fileContent =
     (case matter fileContent of
        Inl e \<Rightarrow> Inl e
      | Inr (data, body) \<Rightarrow>
          if data = YNull then Inl TypeError
          else
            (let now = clock 0 in
             Inr \<lparr>raw_id = or_default (prop_of data ''id'') (YStr (uuidv4 0)),
                  raw_title = or_default (prop_of data ''title'') (YStr DEFAULT_title),
                  raw_color = or_default (prop_of data ''color'') (YStr DEFAULT_color),
                  raw_pinned = truthy_opt (prop_of data ''pinned''),
                  raw_created = or_default (prop_of data ''created'') (YStr now),
                  raw_updated = or_default (prop_of data ''updated'') (YStr now),
                  raw_reminders = parseReminders clock uuidv4 (prop_of data ''reminders''),
                  raw_tags = (case prop_of data ''tags'' of Some (YSeq ts) \<Rightarrow> ts | _ \<Rightarrow> []),
                  raw_encrypted = truthy_opt (prop_of data ''encrypted''),
                  raw_content = trim body\<rparr>))"








section \<open>Mobile sync service (DropboxService): its own note format\<close>

text \<open>The mobile application has a note type of its own, without reminders and
  encryption, and a parser and a serializer written by hand.\<close>

record MNote =
  m_id :: string
  m_title :: string
  m_content :: string
  m_created :: string
  m_updated :: string
  m_pinned :: bool
  m_color :: string
  m_tags :: "string list"
  m_widgetId :: "int option"

text \<open>The values the hand-written parser stores in \<open>data\<close>: a string, a boolean or an
  array of strings.\<close>

datatype jsval = JStr string | JBool bool | JArr "string list"

fun js_truthy :: "jsval \<Rightarrow> bool" where
  "js_truthy (JStr s) = (s \<noteq> [])"
| "js_truthy (JBool b) = b"
| "js_truthy (JArr xs) = True"

definition js_or :: "jsval option \<Rightarrow> jsval \<Rightarrow> jsval" where
  "js_or v d = (case v of None \<Rightarrow> d | Some x \<Rightarrow> if js_truthy x then x else d)"

text \<open>The first occurrence of a text in a string: what stands before it and what stands
  after it. \<open>s.replace(lit, '')\<close> with a string pattern removes the first occurrence.\<close>

fun split_first :: "string \<Rightarrow> string \<Rightarrow> (string \<times> string) option" where
  "split_first lit [] = (if lit = [] then Some ([], []) else None)"
| "split_first lit (c # cs) =
     (if take (length lit) (c # cs) = lit then Some ([], drop (length lit) (c # cs))
      else (case split_first lit cs of
              None \<Rightarrow> None
            | Some (before, after) \<Rightarrow> Some (c # before, after)))"

definition replace_first :: "string \<Rightarrow> string \<Rightarrow> string" where
  "replace_first lit s = (case split_first lit s of None \<Rightarrow> s | Some (before, after) \<Rightarrow> before @ after)"

text \<open>
  \<open>content.match(/^---\n([\s\S]*?)\n---\n([\s\S]*)$/)\<close>: the text starts with the first
  separator line; the first capture is lazy, so it ends at the first \<open>\n---\n\<close> after that;
  the second capture is the rest.
\<close>

definition frontmatter_match :: "string \<Rightarrow> (string \<times> string) option" where
  "frontmatter_match c =
     (if take 4 c = ''---\<newline>'' then split_first ''\<newline>---\<newline>'' (drop 4 c) else None)"

text \<open>\<open>s.replace(/^['"]|['"]$/g, '')\<close>: a quote at the start goes, and a quote at the end of
  what is left goes.\<close>

definition is_quote :: "char \<Rightarrow> bool" where
  "is_quote c = (c = CHR 0x27 \<or> c = CHR 0x22)"

definition strip_quotes :: "string \<Rightarrow> string" where
  "strip_quotes s =
     (let s1 = (case s of [] \<Rightarrow> [] | c # cs \<Rightarrow> if is_quote c then cs else s)
      in if s1 \<noteq> [] \<and> is_quote (last s1) then butlast s1 else s1)"

text \<open>The value of a line of the front matter.\<close>

definition parse_value :: "string \<Rightarrow> jsval" where
  "parse_value v =
     (if v \<noteq> [] \<and> hd v = CHR ''['' \<and> last v = CHR '']''
      then JArr (map (\<lambda>s. strip_quotes (trim s)) (split_on CHR '','' (butlast (tl v))))
      else if v = ''true'' then JBool True
      else if v = ''false'' then JBool False
      else JStr v)"

text \<open>One line of the front matter: \<open>data[key] = value\<close> when the line has a colon.\<close>

definition parse_line :: "string \<Rightarrow> (string \<times> jsval) list \<Rightarrow> (string \<times> jsval) list" where
  "parse_line line data =
     (let parts = split_on CHR '':'' line in
      if length parts \<ge> 2
      then AList.update (trim (hd parts)) (parse_value (trim (join_with '':'' (tl parts)))) data
      else data)"

definition parse_frontmatter :: "string \<Rightarrow> (string \<times> jsval) list" where
  "parse_frontmatter frontmatter = fold parse_line (split_on CHR 0x0A frontmatter) []"

text \<open>The note the hand-written parser builds; as in \<open>parser.ts\<close>, the fields that come
  from \<open>data.x || default\<close> hold whatever the line held.\<close>

record ParsedNote =
  p_id :: jsval
  p_title :: jsval
  p_content :: string
  p_created :: jsval
  p_updated :: jsval
  p_pinned :: bool
  p_color :: jsval
  p_tags :: "string list"

text \<open>\<open>DropboxService.parseNote(content, filename)\<close>; \<open>now1\<close> and \<open>now2\<close> are the two clock
  readings. Nothing in its body can throw, so the \<open>catch\<close> branch is never taken.\<close>

definition m_parseNote :: "string \<Rightarrow> string \<Rightarrow> string \<Rightarrow> string \<Rightarrow> ParsedNote option" where
  "m_parseNote now1 now2 c filename =
     (case frontmatter_match c of
        None \<Rightarrow> None
      | Some (frontmatter, body) \<Rightarrow>
          (let data = parse_frontmatter frontmatter in
           Some \<lparr>p_id = js_or (map_of data ''id'') (JStr (replace_first ''.md'' filename)),
                 p_title = js_or (map_of data ''title'') (JStr ''Untitled''),
                 p_content = trim body,
                 p_created = js_or (map_of data ''created'') (JStr now1),
                 p_updated = js_or (map_of data ''updated'') (JStr now2),
                 p_pinned = (map_of data ''pinned'' = Some (JBool True)),
                 p_color = js_or (map_of data ''color'') (JStr ''#FFE066''),
                 p_tags = (case map_of data ''tags'' of Some (JArr ts) \<Rightarrow> ts | _ \<Rightarrow> [])\<rparr>))"

text \<open>\<open>DropboxService.serializeNote(note)\<close>, a template literal.\<close>

definition m_serializeNote :: "MNote \<Rightarrow> string" where
  "m_serializeNote note =
     (let tags_text = (if m_tags note \<noteq> []
                       then ''['' @ join_with '', '' (map (\<lambda>t. [CHR 0x22] @ t @ [CHR 0x22]) (m_tags note)) @ '']''
                       else ''[]'')
      in ''---\<newline>id: '' @ m_id note @ ''\<newline>title: '' @ m_title note @
         ''\<newline>created: '' @ m_created note @ ''\<newline>updated: '' @ m_updated note @
         ''\<newline>pinned: '' @ (if m_pinned note then ''true'' else ''false'') @
         ''\<newline>color: '' @ m_color note @ ''\<newline>tags: '' @ tags_text @
         ''\<newline>---\<newline>'' @ m_content note @ ''\<newline>'')"

text \<open>The front matter has a line with the key \<open>k\<close>: a line with a colon whose text before
  the first colon, trimmed, is \<open>k\<close>.\<close>

definition has_key :: "string \<Rightarrow> string \<Rightarrow> bool" where
  "has_key frontmatter k =
     (\<exists>line \<in> set (split_on CHR 0x0A frontmatter).
        length (split_on CHR '':'' line) \<ge> 2 \<and> trim (hd (split_on CHR '':'' line)) = k)"

text \<open>
  The text the front matter gives for the key \<open>k\<close>: the last line with the key decides
  (\<open>data[key] = value\<close> overwrites), and the text is what follows the first colon, trimmed.
  A value text is bracketed when it starts with \<open>[\<close> and ends with \<open>]\<close>.
\<close>

definition line_key :: "string \<Rightarrow> string option" where
  "line_key line =
     (let parts = split_on CHR '':'' line
      in if length parts \<ge> 2 then Some (trim (hd parts)) else None)"

definition line_text :: "string \<Rightarrow> string" where
  "line_text line = trim (join_with '':'' (tl (split_on CHR '':'' line)))"

definition field_text :: "string \<Rightarrow> string \<Rightarrow> string option" where
  "field_text frontmatter k =
     (case filter (\<lambda>line. line_key line = Some k) (split_on CHR 0x0A frontmatter) of
        [] \<Rightarrow> None
      | l # ls \<Rightarrow> Some (line_text (last (l # ls))))"

definition bracketed :: "string \<Rightarrow> bool" where
  "bracketed v = (v \<noteq> [] \<and> hd v = CHR ''['' \<and> last v = CHR '']'')"

definition list_items :: "string \<Rightarrow> string list" where
  "list_items v = map (\<lambda>s. strip_quotes (trim s)) (split_on CHR '','' (butlast (tl v)))"

text \<open>Clock and identifier readings for the worked examples, and the library on a text
  without a metadata block: it returns no data and the text as content.\<close>

definition ex_clock :: "nat \<Rightarrow> string" where
  "ex_clock k = ''2024-03-01T10:00:00.000Z''"

definition ex_uuidv4 :: "nat \<Rightarrow> string" where
  "ex_uuidv4 k = ''123e4567-e89b-12d3-a456-426614174000''"

definition no_front_matter :: "string \<Rightarrow> parse_error + yaml \<times> string" where
  "no_front_matter s = Inr (YMap [], s)"


text \<open>
  A small front-matter library for the worked examples, in the place of gray-matter: the
  printer writes one line \<open>key: value\<close> per property between two separator lines, the content
  and a line feed (it has no notation for reminders and throws when there are some); the
  reader takes the block between the separator lines, reads each line up to the first colon
  and space as the key, and the rest as \<open>true\<close>, \<open>false\<close>, a bracketed list or a string; a text
  without a block is all content.
\<close>

definition line_tags :: "string list \<Rightarrow> string" where
  "line_tags ts = ''['' @ join_with '', '' ts @ '']''"

definition line_stringify :: "string \<Rightarrow> NoteMeta \<Rightarrow> string option" where
  "line_stringify c m =
     (if reminders m \<noteq> [] then None
      else Some (''---\<newline>id: '' @ note_id m @ ''\<newline>title: '' @ title m @ ''\<newline>color: '' @ color m @
        ''\<newline>pinned: '' @ (if pinned m then ''true'' else ''false'') @
        ''\<newline>created: '' @ created m @ ''\<newline>updated: '' @ updated m @
        ''\<newline>reminders: []\<newline>tags: '' @ line_tags (tags m) @
        ''\<newline>encrypted: '' @ (if encrypted m then ''true'' else ''false'') @
        ''\<newline>---\<newline>'' @ c @ ''\<newline>''))"

fun split_list :: "string \<Rightarrow> string \<Rightarrow> string list" where
  "split_list acc [] = [acc]"
| "split_list acc [c] = [acc @ [c]]"
| "split_list acc (c # d # cs) =
     (if c = CHR '','' \<and> d = CHR '' '' then acc # split_list [] cs else split_list (acc @ [c]) (d # cs))"

definition line_value :: "string \<Rightarrow> yaml" where
  "line_value v =
     (if v = ''true'' then YBool True
      else if v = ''false'' then YBool False
      else if v = ''[]'' then YSeq []
      else if v \<noteq> [] \<and> hd v = CHR ''['' \<and> last v = CHR '']''
      then YSeq (map YStr (split_list [] (butlast (tl v))))
      else YStr v)"

definition line_entry :: "string \<Rightarrow> string \<times> yaml" where
  "line_entry line =
     (case split_first '': '' line of
        Some (k, v) \<Rightarrow> (k, line_value v)
      | None \<Rightarrow> (line, YNull))"

definition line_matter :: "string \<Rightarrow> parse_error + yaml \<times> string" where
  "line_matter s =
     (case frontmatter_match s of
        None \<Rightarrow> Inr (YMap [], s)
      | Some (fm, body) \<Rightarrow> Inr (YMap (map line_entry (split_on CHR 0x0A fm)), body))"

section \<open>Mobile sync service (DropboxService): syncWithRemote\<close>

text \<open>An entry of the remote listing (\<open>list_folder\<close>): its \<open>.tag\<close>, name, lower-case path and,
  for a file, the modification time the client sent.\<close>

datatype entry_tag = FileTag | FolderTag | DeletedTag

record Entry =
  entry_tag :: entry_tag
  entry_name :: string
  path_lower :: string
  client_modified :: "string option"

text \<open>
  What the remote store and the runtime answer during one pass. A \<open>fetch\<close> returns a
  response that is \<open>ok\<close> or not, or rejects with a message. Within a pass the store answers a
  request by its arguments. \<open>token\<close> is what \<open>getAccessToken()\<close> resolves to; \<open>parse\<close> is
  \<open>parseNote\<close> with the clock it reads, giving a note of the declared type; \<open>getTime\<close> is
  \<open>new Date(s).getTime()\<close> of the runtime, \<open>None\<close> for an invalid date (\<open>NaN\<close>);
  \<open>date_now\<close> is \<open>Date.now()\<close>.
\<close>

datatype list_result = ListThrow string | ListNotOk string | ListOk "Entry list"
datatype download_result = DlThrow string | DlNotOk | DlOk string
datatype upload_result = UpThrow string | UpNotOk | UpOk

record SyncEnv =
  token :: "string option"
  list_folder :: list_result
  download :: "string \<Rightarrow> download_result"
  upload :: "string \<Rightarrow> string \<Rightarrow> upload_result"
  parse :: "string \<Rightarrow> string \<Rightarrow> MNote option"
  getTime :: "string \<Rightarrow> int option"
  date_now :: int

text \<open>The requests a pass sends, in order.\<close>

datatype net_call = CreateFolder | ListFolder | Download string | Upload string string

text \<open>The state of a pass: \<open>notesMap\<close> (a \<open>Map\<close> from id to note), \<open>syncedCount\<close> and the
  requests sent so far.\<close>

record SyncState =
  notesMap :: "(string \<times> MNote) list"
  syncedCount :: nat
  calls :: "net_call list"

record SyncResult =
  res_notes :: "MNote list"
  res_syncedCount :: nat
  res_error :: "string option"
  res_calls :: "net_call list"

definition ends_with :: "string \<Rightarrow> string \<Rightarrow> bool" where
  "ends_with s suffix = (length suffix \<le> length s \<and> drop (length s - length suffix) s = suffix)"

text \<open>\<open>entry['.tag'] === 'file' && entry.name.endsWith('.md')\<close> and
  \<open>entry.name.replace('.md', '')\<close>.\<close>

definition is_md_file :: "Entry \<Rightarrow> bool" where
  "is_md_file entry = (entry_tag entry = FileTag \<and> ends_with (entry_name entry) ''.md'')"

definition entry_noteId :: "Entry \<Rightarrow> string" where
  "entry_noteId entry = replace_first ''.md'' (entry_name entry)"

text \<open>\<open>new Date(x).getTime()\<close> for a property that may be undefined.\<close>

definition date_of :: "SyncEnv \<Rightarrow> string option \<Rightarrow> int option" where
  "date_of env s = (case s of None \<Rightarrow> None | Some t \<Rightarrow> getTime env t)"

text \<open>\<open>a > b + 2000\<close> on times that may be \<open>NaN\<close>: false as soon as one is.\<close>

definition newer_by_tolerance :: "int option \<Rightarrow> int option \<Rightarrow> bool" where
  "newer_by_tolerance a b =
     (case a of None \<Rightarrow> False | Some x \<Rightarrow> (case b of None \<Rightarrow> False | Some y \<Rightarrow> x > y + 2000))"

text \<open>The decision of the download loop for an entry, given the local note of its id.\<close>

definition shouldDownload :: "SyncEnv \<Rightarrow> Entry \<Rightarrow> MNote option \<Rightarrow> bool" where
  "shouldDownload env entry localNote =
     (case localNote of
        None \<Rightarrow> True
      | Some ln \<Rightarrow>
          newer_by_tolerance (date_of env (client_modified entry)) (getTime env (m_updated ln)))"

text \<open>\<open>if (localNote?.widgetId) parsed.widgetId = localNote.widgetId\<close>.\<close>

definition keep_widget :: "MNote option \<Rightarrow> MNote \<Rightarrow> MNote" where
  "keep_widget localNote parsed =
     (case localNote of
        None \<Rightarrow> parsed
      | Some ln \<Rightarrow>
          (case m_widgetId ln of
             None \<Rightarrow> parsed
           | Some w \<Rightarrow> if w \<noteq> 0 then parsed\<lparr>m_widgetId := Some w\<rparr> else parsed))"

text \<open>Step 3, the download loop: its body for one entry, and the loop. \<open>Inl\<close> is the
  state at which a \<open>fetch\<close> rejected, with the message.\<close>

definition download_step :: "SyncEnv \<Rightarrow> Entry \<Rightarrow> SyncState \<Rightarrow> (string \<times> SyncState) + SyncState" where
  "download_step env entry st =
     (if is_md_file entry then
        (let noteId = entry_noteId entry;
             localNote = map_of (notesMap st) noteId
         in if shouldDownload env entry localNote then
              (let st1 = st\<lparr>calls := calls st @ [Download (path_lower entry)]\<rparr> in
               case download env (path_lower entry) of
                 DlThrow msg \<Rightarrow> Inl (msg, st1)
               | DlNotOk \<Rightarrow> Inr st1
               | DlOk body \<Rightarrow>
                   (case parse env body (entry_name entry) of
                      None \<Rightarrow> Inr st1
                    | Some parsed0 \<Rightarrow>
                        (let parsed = keep_widget localNote parsed0 in
                         Inr (st1\<lparr>notesMap := AList.update (m_id parsed) parsed (notesMap st1),
                                  syncedCount := Suc (syncedCount st1)\<rparr>))))
            else Inr st)
      else Inr st)"

fun download_loop :: "SyncEnv \<Rightarrow> Entry list \<Rightarrow> SyncState \<Rightarrow> (string \<times> SyncState) + SyncState" where
  "download_loop env [] st = Inr st"
| "download_loop env (entry # es) st =
     (case download_step env entry st of
        Inl x \<Rightarrow> Inl x
      | Inr st' \<Rightarrow> download_loop env es st')"

text \<open>Step 4, the set of remote note ids.\<close>

definition remote_ids :: "Entry list \<Rightarrow> string list" where
  "remote_ids entries = map entry_noteId (filter is_md_file entries)"

text \<open>Step 5: a local note that is not in the remote listing and was created more than 30
  seconds ago leaves the map.\<close>

definition grace_ms :: int where "grace_ms = 30000"

definition deletion_step :: "SyncEnv \<Rightarrow> Entry list \<Rightarrow> MNote \<Rightarrow> SyncState \<Rightarrow> SyncState" where
  "deletion_step env entries localNote st =
     (if m_id localNote \<notin> set (remote_ids entries) then
        (case getTime env (m_created localNote) of
           None \<Rightarrow> st
         | Some createdTime \<Rightarrow>
             if createdTime < date_now env - grace_ms
             then st\<lparr>notesMap := AList.delete (m_id localNote) (notesMap st),
                     syncedCount := Suc (syncedCount st)\<rparr>
             else st)
      else st)"

text \<open>Step 6, the decision of the upload loop and the loop itself.\<close>

definition note_path :: "string \<Rightarrow> string" where
  "note_path noteId = ''/notes/'' @ noteId @ ''.md''"

definition shouldUpload :: "SyncEnv \<Rightarrow> Entry list \<Rightarrow> MNote \<Rightarrow> bool" where
  "shouldUpload env entries note =
     (case find (\<lambda>e. entry_name e = m_id note @ ''.md'') entries of
        None \<Rightarrow>
          (case getTime env (m_created note) of
             None \<Rightarrow> False
           | Some createdTime \<Rightarrow> createdTime \<ge> date_now env - grace_ms)
      | Some remoteEntry \<Rightarrow>
          newer_by_tolerance (getTime env (m_updated note)) (date_of env (client_modified remoteEntry)))"

definition upload_step :: "SyncEnv \<Rightarrow> Entry list \<Rightarrow> MNote \<Rightarrow> SyncState \<Rightarrow> (string \<times> SyncState) + SyncState" where
  "upload_step env entries note st =
     (if shouldUpload env entries note then
        (let body = m_serializeNote note;
             st1 = st\<lparr>calls := calls st @ [Upload (note_path (m_id note)) body]\<rparr>
         in case upload env (note_path (m_id note)) body of
              UpThrow msg \<Rightarrow> Inl (msg, st1)
            | UpNotOk \<Rightarrow> Inr st1
            | UpOk \<Rightarrow> Inr (st1\<lparr>syncedCount := Suc (syncedCount st1)\<rparr>))
      else Inr st)"

fun upload_loop :: "SyncEnv \<Rightarrow> Entry list \<Rightarrow> MNote list \<Rightarrow> SyncState \<Rightarrow> (string \<times> SyncState) + SyncState" where
  "upload_loop env entries [] st = Inr st"
| "upload_loop env entries (note # ns) st =
     (case upload_step env entries note st of
        Inl x \<Rightarrow> Inl x
      | Inr st' \<Rightarrow> upload_loop env entries ns st')"

text \<open>The \<open>catch\<close> of the pass: the notes of the map as it is, and \<open>e.message || "Sync failed"\<close>.\<close>

definition failed_result :: "string \<Rightarrow> SyncState \<Rightarrow> SyncResult" where
  "failed_result msg st =
     \<lparr>res_notes = map snd (notesMap st), res_syncedCount = syncedCount st,
      res_error = Some (if msg = [] then ''Sync failed'' else msg), res_calls = calls st\<rparr>"

text \<open>\<open>new Map(localNotes.map(n => [n.id, n]))\<close>.\<close>

definition map_of_notes :: "MNote list \<Rightarrow> (string \<times> MNote) list" where
  "map_of_notes localNotes = fold (\<lambda>n m. AList.update (m_id n) n m) localNotes []"

text \<open>\<open>syncWithRemote(localNotes)\<close>. The request that creates the folder is sent first and
  its outcome is ignored.\<close>

definition syncWithRemote :: "SyncEnv \<Rightarrow> MNote list \<Rightarrow> SyncResult" where
  "syncWithRemote env localNotes =
     (if token env = None \<or> token env = Some [] then
        \<lparr>res_notes = localNotes, res_syncedCount = 0,
         res_error = Some ''Not authenticated or failed to refresh token'', res_calls = []\<rparr>
      else
        (let st0 = \<lparr>notesMap = map_of_notes localNotes, syncedCount = 0,
                    calls = [CreateFolder, ListFolder]\<rparr>
         in case list_folder env of
              ListThrow msg \<Rightarrow> failed_result msg st0
            | ListNotOk errorText \<Rightarrow> failed_result (''List folder failed: '' @ errorText) st0
            | ListOk entries \<Rightarrow>
                (case download_loop env entries st0 of
                   Inl (msg, st) \<Rightarrow> failed_result msg st
                 | Inr st1 \<Rightarrow>
                     (let st2 = fold (deletion_step env entries) localNotes st1 in
                      case upload_loop env entries (map snd (notesMap st2)) st2 of
                        Inl (msg, st) \<Rightarrow> failed_result msg st
                      | Inr st3 \<Rightarrow>
                          \<lparr>res_notes = map snd (notesMap st3), res_syncedCount = syncedCount st3,
                           res_error = None, res_calls = calls st3\<rparr>))))"

section \<open>Mobile sync service: notions for the properties\<close>

text \<open>Notions for stating what a pass does. A map is keyed when every note stands under
  its own id (and well formed when, moreover, no id stands twice).\<close>

definition keyed :: "(string \<times> MNote) list \<Rightarrow> bool" where
  "keyed m = (\<forall>(k, v) \<in> set m. m_id v = k)"

text \<open>A listing is consistent when no two entries share a name, no two note files share a
  path or a note id, and every note file, once downloaded and parsed, holds the note of its
  own id.\<close>

definition remote_consistent :: "SyncEnv \<Rightarrow> Entry list \<Rightarrow> bool" where
  "remote_consistent env entries =
     (distinct (map entry_name entries) \<and>
      distinct (map path_lower (filter is_md_file entries)) \<and>
      distinct (remote_ids entries) \<and>
      (\<forall>e \<in> set entries. is_md_file e \<longrightarrow>
         (\<forall>body p. download env (path_lower e) = DlOk body \<and> parse env body (entry_name e) = Some p
            \<longrightarrow> m_id p = entry_noteId e)))"

text \<open>The note was created more than the grace window ago (an invalid creation time is
  not old: the comparison with \<open>NaN\<close> is false).\<close>

definition is_old :: "SyncEnv \<Rightarrow> MNote \<Rightarrow> bool" where
  "is_old env n = (case getTime env (m_created n) of None \<Rightarrow> False | Some c \<Rightarrow> c < date_now env - grace_ms)"

text \<open>The state of a pass before the download loop, and a session that has a token.\<close>

definition start_state :: "MNote list \<Rightarrow> SyncState" where
  "start_state ls = \<lparr>notesMap = map_of_notes ls, syncedCount = 0, calls = [CreateFolder, ListFolder]\<rparr>"

definition authenticated :: "SyncEnv \<Rightarrow> bool" where
  "authenticated env = (token env \<noteq> None \<and> token env \<noteq> Some [])"

definition wf_map :: "(string \<times> MNote) list \<Rightarrow> bool" where
  "wf_map m = (keyed m \<and> distinct (map fst m))"

section \<open>Desktop sync manager (DropboxSyncManager)\<close>

text \<open>
  The requests the manager sends, in order: the account check of the SDK client, the token
  refresh (refresh token and client id), the creation of the folder \<open>/notes\<close> and the
  upload of a note by \<open>fetch\<close> (bearer token; then path and body), and the SDK calls of the
  full sync: listing, download (path), upload (path and contents) and folder creation.
\<close>

datatype request =
    UsersGetCurrentAccount
  | OAuthToken string string
  | CreateFolderV2 string
  | FilesUpload string string string
  | FilesListFolder
  | FilesDownload string
  | SdkFilesUpload string string
  | SdkCreateFolder

text \<open>
  A \<open>fetch\<close> rejects or resolves to a response that is \<open>ok\<close> or not, with its body text.
  A call of the SDK client rejects with an error, of which the code reads \<open>status\<close> and
  \<open>error.error_summary\<close> (the empty text when there is none), or resolves to a result.
\<close>

datatype fetch_reply = FetchRejects | FetchNotOk string | FetchOk string

datatype 'a sdk_reply = SdkRejects "int option" string | SdkResolves 'a

datatype SyncStatus = Idle | Syncing | SyncError | Offline | NotConnected

text \<open>A file of the vault directory: its content and \<open>stat.ctimeMs\<close>, the time of its last
  change of status.\<close>

record LocalFile =
  file_content :: string
  ctimeMs :: int

text \<open>
  The state of the manager: the store \<open>stickyvault-dropbox\<close> (tokens, app key, connection
  flag and \<open>noteHashes\<close>, the hash recorded per note id at its last successful upload), the
  fields of the object (\<open>dbx\<close>: whether there is a client; \<open>notesFolderCreated\<close>; the
  status; the vault path), the files of the vault directory in the order \<open>readdir\<close> lists
  them, the requests sent so far, and the number of clock readings \<open>serializeNote\<close> has
  taken.
\<close>

record Desktop =
  accessToken :: string
  refreshToken :: string
  appKey :: string
  isConnected :: bool
  noteHashes :: "(string \<times> string) list"
  dbx :: bool
  notesFolderCreated :: bool
  sync_status :: SyncStatus
  localVaultPath :: string
  vault_dir :: "(string \<times> LocalFile) list"
  requests :: "request list"
  clock_reads :: nat

text \<open>
  What the manager reads from outside. The remote store answers the request number \<open>k\<close>
  (the number of requests sent before it) by \<open>api_account k\<close>, \<open>api_oauth k\<close> and so on,
  according to the kind of the request. \<open>json_tokens\<close> reads the tokens of the body of a
  refresh response (\<open>None\<close> when \<open>response.json()\<close> rejects or there is no access token; the
  refresh token is empty when there is none), \<open>json_ok\<close> tells whether the body of an upload
  response is a JSON value with properties. \<open>md5\<close> is the digest of \<open>crypto\<close>,
  \<open>matter_stringify\<close> the printer of gray-matter, \<open>iso_clock k\<close> the \<open>k\<close>-th reading of
  \<open>new Date().toISOString()\<close> in \<open>serializeNote\<close>. \<open>local_updated\<close> is
  \<open>new Date(parseNote(text).updated).getTime()\<close> (\<open>None\<close> when \<open>parseNote\<close> throws,
  \<open>Some None\<close> for an invalid date), \<open>remote_time\<close> is \<open>new Date(s).getTime()\<close>,
  \<open>now_at f\<close> is the reading of \<open>Date.now()\<close> when the deletion loop looks at the file
  \<open>f\<close>. The last four tell whether the file system lets the manager list the directory,
  read, write and remove a file, and \<open>ctime_written\<close> is the \<open>ctimeMs\<close> of a file after a
  write.
\<close>

record Runtime =
  api_account :: "nat \<Rightarrow> unit sdk_reply"
  api_oauth :: "nat \<Rightarrow> fetch_reply"
  api_create_folder :: "nat \<Rightarrow> fetch_reply"
  api_upload :: "nat \<Rightarrow> fetch_reply"
  api_list :: "nat \<Rightarrow> Entry list sdk_reply"
  api_download :: "nat \<Rightarrow> string option sdk_reply"
  api_sdk_upload :: "nat \<Rightarrow> unit sdk_reply"
  api_sdk_create_folder :: "nat \<Rightarrow> unit sdk_reply"
  json_tokens :: "string \<Rightarrow> (string \<times> string) option"
  json_ok :: "string \<Rightarrow> bool"
  md5 :: "string \<Rightarrow> string"
  matter_stringify :: "string \<Rightarrow> NoteMeta \<Rightarrow> string option"
  iso_clock :: "nat \<Rightarrow> string"
  local_updated :: "string \<Rightarrow> int option option"
  remote_time :: "string \<Rightarrow> int option"
  now_at :: "string \<Rightarrow> int"
  readdir_ok :: bool
  read_ok :: "string \<Rightarrow> bool"
  write_file_ok :: "string \<Rightarrow> bool"
  unlink_ok :: "string \<Rightarrow> bool"
  ctime_written :: "string \<Rightarrow> int"

text \<open>\<open>s.includes(lit)\<close>, and the sending of a request.\<close>

definition js_includes :: "string \<Rightarrow> string \<Rightarrow> bool" where
  "js_includes s lit = (split_first lit s \<noteq> None)"

definition send :: "request \<Rightarrow> Desktop \<Rightarrow> Desktop" where
  "send r s = s\<lparr>requests := requests s @ [r]\<rparr>"

text \<open>\<open>disconnect()\<close>.\<close>

definition disconnect :: "Desktop \<Rightarrow> Desktop" where
  "disconnect s =
     s\<lparr>accessToken := [], refreshToken := [], isConnected := False, dbx := False,
       sync_status := NotConnected\<rparr>"

text \<open>\<open>refreshAccessToken()\<close>: a response that is not \<open>ok\<close> and every throw inside the \<open>try\<close>
  disconnect.\<close>

definition refreshAccessToken :: "Runtime \<Rightarrow> Desktop \<Rightarrow> bool \<times> Desktop" where
  "refreshAccessToken env s =
     (if refreshToken s = [] \<or> appKey s = [] then (False, s)
      else
        (let s1 = send (OAuthToken (refreshToken s) (appKey s)) s in
         case api_oauth env (length (requests s)) of
           FetchRejects \<Rightarrow> (False, disconnect s1)
         | FetchNotOk t \<Rightarrow> (False, disconnect s1)
         | FetchOk t \<Rightarrow>
             (case json_tokens env t of
                None \<Rightarrow> (False, disconnect s1)
              | Some (access, refresh) \<Rightarrow>
                  (True, s1\<lparr>accessToken := access,
                            refreshToken := (if refresh \<noteq> [] then refresh else refreshToken s1),
                            dbx := True\<rparr>))))"

text \<open>\<open>ensureValidToken()\<close>: without a client the method falls through to \<open>return false\<close>;
  an error of the account check that is no authentication error counts as a valid token.\<close>

definition ensureValidToken :: "Runtime \<Rightarrow> Desktop \<Rightarrow> bool \<times> Desktop" where
  "ensureValidToken env s =
     (if accessToken s = [] then (False, s)
      else if \<not> dbx s then (False, s)
      else
        (let s1 = send UsersGetCurrentAccount s in
         case api_account env (length (requests s)) of
           SdkResolves u \<Rightarrow> (True, s1)
         | SdkRejects st summary \<Rightarrow>
             if st = Some 401 \<or> js_includes summary ''expired''
             then refreshAccessToken env s1
             else (True, s1)))"












fun is_file_upload :: "request \<Rightarrow> bool" where
  "is_file_upload (FilesUpload t q body) = True"
| "is_file_upload r = False"


definition sent_since :: "Desktop \<Rightarrow> Desktop \<Rightarrow> request list" where
  "sent_since s s' = drop (length (requests s)) (requests s')"

text \<open>
  A runtime for the worked examples: the remote store accepts every request, the digest is
  the text itself, the printer is the small library, and the clock stands still (so the hash
  of a note does not change between two calls).
\<close>

definition ex_runtime :: Runtime where
  "ex_runtime =
     \<lparr>api_account = (\<lambda>k. SdkResolves ()),
      api_oauth = (\<lambda>k. FetchRejects),
      api_create_folder = (\<lambda>k. FetchOk ''{}''),
      api_upload = (\<lambda>k. FetchOk ''{}''),
      api_list = (\<lambda>k. SdkResolves []),
      api_download = (\<lambda>k. SdkResolves None),
      api_sdk_upload = (\<lambda>k. SdkResolves ()),
      api_sdk_create_folder = (\<lambda>k. SdkResolves ()),
      json_tokens = (\<lambda>t. None),
      json_ok = (\<lambda>t. True),
      md5 = (\<lambda>t. t),
      matter_stringify = line_stringify,
      iso_clock = (\<lambda>k. ''2024-03-01T10:00:00.000Z''),
      local_updated = (\<lambda>t. None),
      remote_time = (\<lambda>t. None),
      now_at = (\<lambda>f. 0),
      readdir_ok = True,
      read_ok = (\<lambda>f. True),
      write_file_ok = (\<lambda>f. True),
      unlink_ok = (\<lambda>f. True),
      ctime_written = (\<lambda>f. 0)\<rparr>"

definition scenario_text :: string where
  "scenario_text =
     ''---\<newline>id: id1\<newline>title: A\<newline>color: #FFE066\<newline>pinned: false\<newline>created: 2024-01-01T00:00:00.000Z\<newline>updated: 2024-03-01T10:00:00.000Z\<newline>reminders: []\<newline>tags: []\<newline>encrypted: false\<newline>---\<newline>hello\<newline>''"

definition ex_desktop :: "(string \<times> string) list \<Rightarrow> (string \<times> LocalFile) list \<Rightarrow> Desktop" where
  "ex_desktop hashes files =
     \<lparr>accessToken = ''token'', refreshToken = ''refresh'', appKey = ''key'', isConnected = True,
      noteHashes = hashes, dbx = True, notesFolderCreated = True, sync_status = Idle,
      localVaultPath = ''/vault'', vault_dir = files, requests = [], clock_reads = 0\<rparr>"

section \<open>Desktop sync manager: the full sync\<close>

text \<open>
  \<open>downloadFromDropbox\<close> compares, for an entry of the listing that is a note file, the
  \<open>updated\<close> time in the YAML of the local file of the same name with the entry's
  \<open>client_modified\<close>. Reading or parsing the local file may throw, which the code takes as
  "download"; with an invalid date every comparison is false and the file is downloaded as
  well. Files are taken by their names (the names of a listing have no directory part).
\<close>

definition want_download :: "Runtime \<Rightarrow> Desktop \<Rightarrow> Entry \<Rightarrow> bool" where
  "want_download env s entry =
     (case map_of (vault_dir s) (entry_name entry) of
        None \<Rightarrow> True
      | Some f \<Rightarrow>
          if \<not> read_ok env (entry_name entry) then True
          else
            (case local_updated env (file_content f) of
               None \<Rightarrow> True
             | Some localDate \<Rightarrow>
                 (case (localDate,
                        case client_modified entry of None \<Rightarrow> None | Some t \<Rightarrow> remote_time env t) of
                    (Some l, Some r) \<Rightarrow>
                      if \<bar>r - l\<bar> < 2000 then False
                      else if l > r then False
                      else True
                  | _ \<Rightarrow> True)))"

text \<open>
  The body of the download loop for one entry. A rejected download and a failed write throw
  out of the loop (\<open>Inl\<close>, with the status and the summary the outer \<open>catch\<close> reads; the
  error of a write has none). A download without content writes nothing.
\<close>

record PassCounts =
  downloaded :: nat
  deleted :: nat

definition download_entry ::
  "Runtime \<Rightarrow> Entry \<Rightarrow> PassCounts \<times> Desktop \<Rightarrow> ((int option \<times> string) \<times> PassCounts \<times> Desktop) + (PassCounts \<times> Desktop)" where
  "download_entry env entry acc =
     (case acc of (counts, s) \<Rightarrow>
        if is_md_file entry \<and> want_download env s entry then
          (let s1 = send (FilesDownload (path_lower entry)) s in
           case api_download env (length (requests s)) of
             SdkRejects st summary \<Rightarrow> Inl ((st, summary), counts, s1)
           | SdkResolves None \<Rightarrow> Inr (counts, s1)
           | SdkResolves (Some fileContent) \<Rightarrow>
               if write_file_ok env (entry_name entry)
               then Inr (counts\<lparr>downloaded := Suc (downloaded counts)\<rparr>,
                         s1\<lparr>vault_dir := AList.update (entry_name entry)
                               \<lparr>file_content = fileContent, ctimeMs = ctime_written env (entry_name entry)\<rparr>
                               (vault_dir s1)\<rparr>)
               else Inl ((None, []), counts, s1))
        else Inr (counts, s))"

fun download_entries ::
  "Runtime \<Rightarrow> Entry list \<Rightarrow> PassCounts \<times> Desktop \<Rightarrow> ((int option \<times> string) \<times> PassCounts \<times> Desktop) + (PassCounts \<times> Desktop)" where
  "download_entries env [] acc = Inr acc"
| "download_entries env (entry # es) acc =
     (case download_entry env entry acc of
        Inl x \<Rightarrow> Inl x
      | Inr acc1 \<Rightarrow> download_entries env es acc1)"

text \<open>
  The deletion loop: a local note file whose id is not among the remote ids is removed when
  \<open>Date.now() - stat.ctimeMs\<close> is above 30 seconds, and its hash leaves the store; a failed
  \<open>unlink\<close> is swallowed. The loop runs over the names \<open>readdir\<close> returned before it.
\<close>

definition file_noteId :: "string \<Rightarrow> string" where
  "file_noteId file = replace_first ''.md'' file"

definition delete_local :: "Runtime \<Rightarrow> string list \<Rightarrow> string \<Rightarrow> PassCounts \<times> Desktop \<Rightarrow> PassCounts \<times> Desktop" where
  "delete_local env remoteNoteIds file acc =
     (case acc of (counts, s) \<Rightarrow>
        if ends_with file ''.md'' \<and> file_noteId file \<notin> set remoteNoteIds then
          (case map_of (vault_dir s) file of
             None \<Rightarrow> (counts, s)
           | Some f \<Rightarrow>
               if now_at env file - ctimeMs f > 30000 \<and> unlink_ok env file
               then (counts\<lparr>deleted := Suc (deleted counts)\<rparr>,
                     s\<lparr>vault_dir := AList.delete file (vault_dir s),
                       noteHashes := AList.delete (file_noteId file) (noteHashes s)\<rparr>)
               else (counts, s))
        else (counts, s))"

definition delete_locals :: "Runtime \<Rightarrow> string list \<Rightarrow> PassCounts \<times> Desktop \<Rightarrow> PassCounts \<times> Desktop" where
  "delete_locals env remoteNoteIds acc =
     (if readdir_ok env
      then fold (delete_local env remoteNoteIds) (map fst (vault_dir (snd acc))) acc
      else acc)"

text \<open>
  \<open>downloadFromDropbox()\<close>. A listing that is rejected with \<open>path/not_found\<close> makes the
  method create the folder; so does every error thrown out of the download loop with that
  summary; any other error is thrown on. The deletion loop runs only when the download loop
  has come to its end.
\<close>

definition downloadFromDropbox :: "Runtime \<Rightarrow> Desktop \<Rightarrow> PassCounts outcome \<times> Desktop" where
  "downloadFromDropbox env s =
     (let zero = \<lparr>downloaded = 0, deleted = 0\<rparr> in
      if \<not> dbx s then (Returned zero, s)
      else
        (let s1 = send FilesListFolder s;
             recover = (\<lambda>summary counts s2.
               if js_includes summary ''path/not_found'' then
                 (case api_sdk_create_folder env (length (requests s2)) of
                    SdkResolves u \<Rightarrow> (Returned counts, send SdkCreateFolder s2)
                  | SdkRejects st sm \<Rightarrow> (Threw, send SdkCreateFolder s2))
               else (Threw, s2))
         in case api_list env (length (requests s)) of
              SdkRejects st summary \<Rightarrow> recover summary zero s1
            | SdkResolves entries \<Rightarrow>
                (case download_entries env entries (zero, s1) of
                   Inl ((st, summary), counts, s2) \<Rightarrow> recover summary counts s2
                 | Inr acc \<Rightarrow>
                     (case delete_locals env (remote_ids entries) acc of
                        (counts, s3) \<Rightarrow> (Returned counts, s3)))))"

text \<open>
  \<open>uploadToDropbox()\<close>: every note file of the directory that can be read is sent, whatever
  its times; a rejected upload is recorded as an error and the loop goes on.
\<close>

record UploadCounts =
  files_uploaded :: nat
  upload_errors :: nat

definition upload_file :: "Runtime \<Rightarrow> string \<Rightarrow> UploadCounts \<times> Desktop \<Rightarrow> UploadCounts \<times> Desktop" where
  "upload_file env file acc =
     (case acc of (counts, s) \<Rightarrow>
        if ends_with file ''.md'' then
          (case map_of (vault_dir s) file of
             None \<Rightarrow> (counts, s)
           | Some f \<Rightarrow>
               if \<not> read_ok env file
               then (counts\<lparr>upload_errors := Suc (upload_errors counts)\<rparr>, s)
               else
                 (let s1 = send (SdkFilesUpload (''/notes/'' @ file) (file_content f)) s in
                  case api_sdk_upload env (length (requests s)) of
                    SdkResolves u \<Rightarrow> (counts\<lparr>files_uploaded := Suc (files_uploaded counts)\<rparr>, s1)
                  | SdkRejects st sm \<Rightarrow> (counts\<lparr>upload_errors := Suc (upload_errors counts)\<rparr>, s1)))
        else (counts, s))"

definition uploadToDropbox :: "Runtime \<Rightarrow> Desktop \<Rightarrow> UploadCounts \<times> Desktop" where
  "uploadToDropbox env s =
     (let zero = \<lparr>files_uploaded = 0, upload_errors = 0\<rparr> in
      if \<not> dbx s then (zero, s)
      else if \<not> readdir_ok env then (zero\<lparr>upload_errors := 1\<rparr>, s)
      else fold (upload_file env) (map fst (vault_dir s)) (zero, s))"

text \<open>\<open>sync()\<close>: the result counts the files uploaded and downloaded and the errors.\<close>

record FullSyncResult =
  result_uploaded :: nat
  result_downloaded :: nat
  result_errors :: nat

definition sync :: "Runtime \<Rightarrow> Desktop \<Rightarrow> FullSyncResult \<times> Desktop" where
  "sync env s =
     (if \<not> dbx s \<or> localVaultPath s = []
      then (\<lparr>result_uploaded = 0, result_downloaded = 0, result_errors = 0\<rparr>, s)
      else
        (case downloadFromDropbox env (s\<lparr>sync_status := Syncing\<rparr>) of
           (Threw, s1) \<Rightarrow>
             (\<lparr>result_uploaded = 0, result_downloaded = 0, result_errors = 1\<rparr>,
              s1\<lparr>sync_status := SyncError\<rparr>)
         | (Returned d, s1) \<Rightarrow>
             (case uploadToDropbox env s1 of
                (u, s2) \<Rightarrow>
                  (\<lparr>result_uploaded = files_uploaded u, result_downloaded = downloaded d,
                    result_errors = upload_errors u\<rparr>,
                   s2\<lparr>sync_status := Idle\<rparr>))))"

text \<open>The SDK uploads of a file among some requests, and the downloads of a path.\<close>

fun is_sdk_upload_of :: "string \<Rightarrow> request \<Rightarrow> bool" where
  "is_sdk_upload_of file (SdkFilesUpload p body) = (p = ''/notes/'' @ file)"
| "is_sdk_upload_of file r = False"

text \<open>
  Notions for stating what a full sync does: the listing arrives and the download loop comes
  to its end (no download is rejected, no write fails); the note files of a listing have
  distinct names and distinct paths.
\<close>

definition download_phase_completes :: "Runtime \<Rightarrow> Desktop \<Rightarrow> Entry list \<Rightarrow> bool" where
  "download_phase_completes env s entries =
     (api_list env (length (requests s)) = SdkResolves entries \<and>
      (case download_entries env entries
              (\<lparr>downloaded = 0, deleted = 0\<rparr>, send FilesListFolder (s\<lparr>sync_status := Syncing\<rparr>)) of
         Inl x \<Rightarrow> False
       | Inr acc \<Rightarrow> True))"

definition listing_distinct :: "Entry list \<Rightarrow> bool" where
  "listing_distinct entries =
     (distinct (map entry_name (filter is_md_file entries)) \<and>
      distinct (map path_lower (filter is_md_file entries)))"

section \<open>Concrete passes for the worked examples\<close>

text \<open>
  The runtime's reading of a few time stamps, in milliseconds since the epoch; the passes
  below run at \<open>2024-03-01T10:00:00.000Z\<close>.
\<close>

definition ex_time :: "string \<Rightarrow> int option" where
  "ex_time t =
     (if t = ''2024-01-01T00:00:00.000Z'' then Some 1704067200000
      else if t = ''2024-03-01T09:59:55.000Z'' then Some 1709287195000
      else if t = ''2024-03-01T10:00:00.000Z'' then Some 1709287200000
      else if t = ''2024-03-01T10:00:01.000Z'' then Some 1709287201000
      else if t = ''2024-03-01T10:00:05.000Z'' then Some 1709287205000
      else None)"

definition ex_now :: int where
  "ex_now = 1709287200000"

text \<open>A note of the mobile application, by its id and its two times, and the entry of the
  listing for a note id.\<close>

definition ex_mnote :: "string \<Rightarrow> string \<Rightarrow> string \<Rightarrow> MNote" where
  "ex_mnote k c u =
     \<lparr>m_id = k, m_title = ''A'', m_content = ''hello'', m_created = c, m_updated = u,
      m_pinned = False, m_color = ''#FFE066'', m_tags = [], m_widgetId = None\<rparr>"

definition ex_remote :: "string \<Rightarrow> string \<Rightarrow> Entry" where
  "ex_remote k modified =
     \<lparr>entry_tag = FileTag, entry_name = k @ ''.md'', path_lower = ''/notes/'' @ k @ ''.md'',
      client_modified = Some modified\<rparr>"

text \<open>
  The parser of the mobile service as the pass uses it: \<open>parseNote\<close> at a clock reading,
  for the texts whose id, title, times and color are read as strings (the declared type of
  a note).
\<close>

definition typed_parse :: "string \<Rightarrow> string \<Rightarrow> string \<Rightarrow> MNote option" where
  "typed_parse now body filename =
     (case m_parseNote now now body filename of
        None \<Rightarrow> None
      | Some p \<Rightarrow>
          (case (p_id p, p_title p, p_created p, p_updated p, p_color p) of
             (JStr i, JStr t, JStr c, JStr u, JStr col) \<Rightarrow>
               Some \<lparr>m_id = i, m_title = t, m_content = p_content p, m_created = c, m_updated = u,
                     m_pinned = p_pinned p, m_color = col, m_tags = p_tags p, m_widgetId = None\<rparr>
           | _ \<Rightarrow> None))"

text \<open>A remote store that lists the given entries, holds for every path the note \<open>id1\<close>
  updated at \<open>2024-03-01T10:00:05.000Z\<close>, and accepts every upload.\<close>

definition ex_remote_text :: string where
  "ex_remote_text =
     m_serializeNote (ex_mnote ''id1'' ''2024-01-01T00:00:00.000Z'' ''2024-03-01T10:00:05.000Z'')"

definition ex_mobile :: "Entry list \<Rightarrow> SyncEnv" where
  "ex_mobile es =
     \<lparr>token = Some ''token'', list_folder = ListOk es, download = (\<lambda>p. DlOk ex_remote_text),
      upload = (\<lambda>p body. UpOk), parse = typed_parse ''2024-03-01T10:00:00.000Z'',
      getTime = ex_time, date_now = ex_now\<rparr>"

text \<open>A file of the vault whose note was created on the first of January; the runtime of
  a full sync that lists the given entries and reads the \<open>updated\<close> time of every local
  file as \<open>2024-03-01T10:00:00.000Z\<close>.\<close>

definition ex_file :: "int \<Rightarrow> LocalFile" where
  "ex_file ctime = \<lparr>file_content = scenario_text, ctimeMs = ctime\<rparr>"

definition ex_full_sync :: "Entry list \<Rightarrow> Runtime" where
  "ex_full_sync es =
     ex_runtime\<lparr>api_list := (\<lambda>k. SdkResolves es),
                api_download := (\<lambda>k. SdkResolves (Some ex_remote_text)),
                local_updated := (\<lambda>t. Some (Some ex_now)),
                remote_time := ex_time,
                now_at := (\<lambda>f. ex_now)\<rparr>"

section \<open>Index manager: properties\<close>

lemma set_set_to_array: "set (set_to_array xs) = set xs"
  by (induction xs rule: set_to_array.induct) auto

lemma distinct_set_to_array: "distinct (set_to_array xs)"
  by (induction xs rule: set_to_array.induct) (auto simp: set_set_to_array)

lemma set_to_array_distinct_id: "distinct xs \<Longrightarrow> set_to_array xs = xs"
  by (induction xs) (auto simp: removeAll_id)

lemma fold_max_eq_Max: "fold max xs (a::int) = Max (insert a (set xs))"
proof (induction xs arbitrary: a)
  case Nil
  then show ?case by simp
next
  case (Cons x xs)
  have "Max (insert (max x a) (set xs)) = Max (insert a (insert x (set xs)))"
    by (cases "set xs = {}") (auto simp: max.commute max.left_commute)
  with Cons show ?case by simp
qed

lemma maxOrder_Max: "maxOrder index = Max (insert (- 1) (set (map (order \<circ> snd) (idx_notes index))))"
  by (simp add: maxOrder_def fold_max_eq_Max)

lemma upsert_new:
  "map_of (idx_notes index) (note_id note) = None \<Longrightarrow>
   map_of (idx_notes (upsertNoteInIndex index note)) (note_id note) =
     Some \<lparr>order = maxOrder index + 1, e_pinned = pinned note, e_color = color note,
           e_title = title note, e_updated = updated note\<rparr>"
  by (simp add: upsertNoteInIndex_def Let_def update_conv')

lemma upsert_existing:
  "map_of (idx_notes index) (note_id note) = Some e \<Longrightarrow>
   map_of (idx_notes (upsertNoteInIndex index note)) (note_id note) =
     Some \<lparr>order = order e, e_pinned = pinned note, e_color = color note,
           e_title = title note, e_updated = updated note\<rparr>"
  by (simp add: upsertNoteInIndex_def Let_def update_conv')

lemma upsert_others:
  "k \<noteq> note_id note \<Longrightarrow>
   map_of (idx_notes (upsertNoteInIndex index note)) k = map_of (idx_notes index) k"
  by (simp add: upsertNoteInIndex_def Let_def update_conv')

lemma upsert_tags:
  "set (idx_tags (upsertNoteInIndex index note)) = set (idx_tags index) \<union> set (tags note)"
  by (simp add: upsertNoteInIndex_def Let_def set_set_to_array)

lemma upsert_deleted: "deletedNotes (upsertNoteInIndex index note) = deletedNotes index"
  by (simp add: upsertNoteInIndex_def Let_def)

lemma maxOrder_nonempty:
  assumes "(k, e) \<in> set (idx_notes index)" "- 1 \<le> order e"
  shows "maxOrder index = Max (set (map (order \<circ> snd) (idx_notes index)))"
proof -
  let ?S = "set (map (order \<circ> snd) (idx_notes index))"
  have fin: "finite ?S" by simp
  have mem: "order e \<in> ?S" using assms(1) by force
  then have "- 1 \<le> Max ?S" using assms(2) fin by (meson Max_ge order_trans)
  moreover have "?S \<noteq> {}" using mem by auto
  ultimately have "Max (insert (- 1) ?S) = Max ?S"
    using fin by (simp add: max_def)
  then show ?thesis by (simp add: maxOrder_Max)
qed


text \<open>
  Claim C7, as the code has it. A note whose id is not in the index gets the order
  \<open>Math.max(-1, ...orders) + 1\<close>: that is \<open>max(existing orders) + 1\<close> as soon as one
  existing order is at least \<open>-1\<close>, and \<open>0\<close> on an empty index. A note whose id is in the
  index keeps the order of its entry and takes pinned, color, title and updated from the
  note. Other entries are untouched, and the tag set of the result is the union of the old
  tag set and the tags of the note.
\<close>

theorem upsertNoteInIndex_order_and_tags:
  "(map_of (idx_notes index) (note_id note) = None \<longrightarrow>
      map_of (idx_notes (upsertNoteInIndex index note)) (note_id note) =
        Some \<lparr>order = Max (insert (- 1) (set (map (order \<circ> snd) (idx_notes index)))) + 1,
              e_pinned = pinned note, e_color = color note, e_title = title note,
              e_updated = updated note\<rparr>) \<and>
   ((\<exists>k e. (k, e) \<in> set (idx_notes index) \<and> - 1 \<le> order e) \<longrightarrow>
      Max (insert (- 1) (set (map (order \<circ> snd) (idx_notes index)))) =
      Max (set (map (order \<circ> snd) (idx_notes index)))) \<and>
   (\<forall>e. map_of (idx_notes index) (note_id note) = Some e \<longrightarrow>
      map_of (idx_notes (upsertNoteInIndex index note)) (note_id note) =
        Some \<lparr>order = order e, e_pinned = pinned note, e_color = color note,
              e_title = title note, e_updated = updated note\<rparr>) \<and>
   (\<forall>k. k \<noteq> note_id note \<longrightarrow>
      map_of (idx_notes (upsertNoteInIndex index note)) k = map_of (idx_notes index) k) \<and>
   set (idx_tags (upsertNoteInIndex index note)) = set (idx_tags index) \<union> set (tags note)"
proof (intro conjI impI allI)
  assume "map_of (idx_notes index) (note_id note) = None"
  then show "map_of (idx_notes (upsertNoteInIndex index note)) (note_id note) =
        Some \<lparr>order = Max (insert (- 1) (set (map (order \<circ> snd) (idx_notes index)))) + 1,
              e_pinned = pinned note, e_color = color note, e_title = title note,
              e_updated = updated note\<rparr>"
    using upsert_new[of index "note"] by (simp add: maxOrder_Max)
next
  assume "\<exists>k e. (k, e) \<in> set (idx_notes index) \<and> - 1 \<le> order e"
  then obtain k e where "(k, e) \<in> set (idx_notes index)" "- 1 \<le> order e" by blast
  then show "Max (insert (- 1) (set (map (order \<circ> snd) (idx_notes index)))) =
      Max (set (map (order \<circ> snd) (idx_notes index)))"
    using maxOrder_nonempty[of k e index] by (simp add: maxOrder_Max)
next
  fix e assume "map_of (idx_notes index) (note_id note) = Some e"
  then show "map_of (idx_notes (upsertNoteInIndex index note)) (note_id note) =
        Some \<lparr>order = order e, e_pinned = pinned note, e_color = color note,
              e_title = title note, e_updated = updated note\<rparr>"
    by (rule upsert_existing)
next
  fix k assume "k \<noteq> note_id note"
  then show "map_of (idx_notes (upsertNoteInIndex index note)) k = map_of (idx_notes index) k"
    by (rule upsert_others)
next
  show "set (idx_tags (upsertNoteInIndex index note)) = set (idx_tags index) \<union> set (tags note)"
    by (rule upsert_tags)
qed

text \<open>The theorem at an index with the orders 0 and 4: a new note gets the order 5, an
  existing one keeps its order 4.\<close>

theorem upsertNoteInIndex_order_and_tags_witness:
  "map_of (idx_notes (ex_index [(''a'', ex_entry 0), (''b'', ex_entry 4)] [] [''home''])) (note_id (ex_note ''c'' ''hello'')) = None \<and>
   map_option order (map_of (idx_notes (upsertNoteInIndex (ex_index [(''a'', ex_entry 0), (''b'', ex_entry 4)] [] [''home'']) (ex_note ''c'' ''hello''))) ''c'') = Some 5 \<and>
   map_of (idx_notes (ex_index [(''a'', ex_entry 0), (''b'', ex_entry 4)] [] [''home''])) (note_id (ex_note ''b'' ''hello'')) = Some (ex_entry 4) \<and>
   map_option order (map_of (idx_notes (upsertNoteInIndex (ex_index [(''a'', ex_entry 0), (''b'', ex_entry 4)] [] [''home'']) (ex_note ''b'' ''hello''))) ''b'') = Some 4 \<and>
   set (idx_tags (upsertNoteInIndex (ex_index [(''a'', ex_entry 0), (''b'', ex_entry 4)] [] [''home'']) (ex_note ''c'' ''hello''))) = {''home'', ''work''}"
  using upsertNoteInIndex_order_and_tags[of "ex_index [(''a'', ex_entry 0), (''b'', ex_entry 4)] [] [''home'']" "ex_note ''c'' ''hello''"]
        upsertNoteInIndex_order_and_tags[of "ex_index [(''a'', ex_entry 0), (''b'', ex_entry 4)] [] [''home'']" "ex_note ''b'' ''hello''"]
  by (auto simp add: ex_index_def ex_note_def ex_entry_def)

text \<open>Claim C7 as stated fails where every existing order is below \<open>-1\<close>: with the single
  order \<open>-5\<close> the new note gets the order 0, not \<open>max(existing orders) + 1 = -4\<close>.\<close>

theorem upsertNoteInIndex_negative_orders_counterexample:
  "map_of (idx_notes (ex_index [(''a'', ex_entry (- 5))] [] [])) (note_id (ex_note ''b'' ''hello'')) = None \<and>
   map_option order (map_of (idx_notes (upsertNoteInIndex (ex_index [(''a'', ex_entry (- 5))] [] []) (ex_note ''b'' ''hello''))) ''b'') = Some 0 \<and>
   Max (set (map (order \<circ> snd) (idx_notes (ex_index [(''a'', ex_entry (- 5))] [] [])))) + 1 = - 4"
  by (simp add: ex_index_def ex_note_def ex_entry_def upsertNoteInIndex_def maxOrder_def)

section \<open>Index manager: tombstones\<close>

lemma remove_entry: "map_of (idx_notes (removeNoteFromIndex index noteId t)) noteId = None"
  by (simp add: removeNoteFromIndex_def delete_conv')

lemma remove_others:
  "k \<noteq> noteId \<Longrightarrow> map_of (idx_notes (removeNoteFromIndex index noteId t)) k = map_of (idx_notes index) k"
  by (simp add: removeNoteFromIndex_def delete_conv')

lemma remove_tracked:
  "set (deletedNotes (removeNoteFromIndex index noteId True)) = insert noteId (set (deletedNotes index))"
  by (auto simp: removeNoteFromIndex_def set_set_to_array)

lemma set_to_array_snoc_mem: "x \<in> set xs \<Longrightarrow> set_to_array (xs @ [x]) = set_to_array xs"
proof (induction xs rule: set_to_array.induct)
  case 1
  then show ?case by simp
next
  case (2 y ys)
  show ?case
  proof (cases "x = y")
    case True
    then show ?thesis by (simp add: removeAll_append)
  next
    case False
    with 2 have "x \<in> set (removeAll y ys)" by simp
    with 2 False show ?thesis by simp
  qed
qed

lemma remove_idempotent:
  "noteId \<in> set (deletedNotes index) \<Longrightarrow> distinct (deletedNotes index) \<Longrightarrow>
   deletedNotes (removeNoteFromIndex index noteId True) = deletedNotes index"
  by (simp add: removeNoteFromIndex_def set_to_array_snoc_mem set_to_array_distinct_id)

lemma remove_keeps_tombstones:
  "set (deletedNotes index) \<subseteq> set (deletedNotes (removeNoteFromIndex index noteId t))"
  by (auto simp: removeNoteFromIndex_def set_set_to_array)

lemma other_ops_keep_tombstones:
  "deletedNotes (reorderNotes index ks) = deletedNotes index"
  "deletedNotes (updateNoteColor index k c) = deletedNotes index"
  "deletedNotes (toggleNotePinned index k) = deletedNotes index"
  "deletedNotes (migrateIndex index) = deletedNotes index"
  by (simp_all add: reorderNotes_def updateNoteColor_def toggleNotePinned_def migrateIndex_def
        with_notes_def split: option.splits)

lemma rebuild_no_tombstones: "deletedNotes (rebuildIndex now ns) = []"
  by (simp add: rebuildIndex_def createEmptyIndex_def Let_def)

text \<open>
  Claim C8, as the code has it. \<open>removeNoteFromIndex\<close> deletes the entry of the id and
  leaves the other entries; with \<open>trackDeletion\<close> the id joins \<open>deletedNotes\<close>, without it
  the list is unchanged; removing an id that is already tracked leaves the set of tombstones
  as it is (and the list itself when it has no duplicates). No operation that maps an index
  to an index (remove, upsert, reorder, recolor, toggle pinned, migrate) drops a tombstone.
  A rebuilt index has no tombstone.
\<close>

theorem removeNoteFromIndex_tombstones:
  "map_of (idx_notes (removeNoteFromIndex index noteId t)) noteId = None \<and>
   (\<forall>k. k \<noteq> noteId \<longrightarrow>
      map_of (idx_notes (removeNoteFromIndex index noteId t)) k = map_of (idx_notes index) k) \<and>
   set (deletedNotes (removeNoteFromIndex index noteId True)) = insert noteId (set (deletedNotes index)) \<and>
   deletedNotes (removeNoteFromIndex index noteId False) = deletedNotes index \<and>
   (noteId \<in> set (deletedNotes index) \<longrightarrow>
      set (deletedNotes (removeNoteFromIndex index noteId True)) = set (deletedNotes index) \<and>
      (distinct (deletedNotes index) \<longrightarrow>
         deletedNotes (removeNoteFromIndex index noteId True) = deletedNotes index)) \<and>
   set (deletedNotes index) \<subseteq> set (deletedNotes (removeNoteFromIndex index noteId t)) \<and>
   deletedNotes (upsertNoteInIndex index n) = deletedNotes index \<and>
   deletedNotes (reorderNotes index ks) = deletedNotes index \<and>
   deletedNotes (updateNoteColor index k c) = deletedNotes index \<and>
   deletedNotes (toggleNotePinned index k) = deletedNotes index \<and>
   deletedNotes (migrateIndex index) = deletedNotes index \<and>
   deletedNotes (rebuildIndex now ns) = []"
  using remove_entry[of index noteId t] remove_others[of _ noteId index t]
    remove_tracked[of index noteId] remove_idempotent[of noteId index]
    remove_keeps_tombstones[of index noteId t] upsert_deleted[of index n]
    other_ops_keep_tombstones[of index] rebuild_no_tombstones[of now ns]
  by (auto simp: removeNoteFromIndex_def)

text \<open>The theorem at an index that already tracks the id \<open>a\<close>.\<close>

theorem removeNoteFromIndex_tombstones_witness:
  "''a'' \<in> set (deletedNotes (ex_index [(''a'', ex_entry 0), (''b'', ex_entry 1)] [''z'', ''a''] [])) \<and>
   distinct (deletedNotes (ex_index [(''a'', ex_entry 0), (''b'', ex_entry 1)] [''z'', ''a''] [])) \<and>
   deletedNotes (removeNoteFromIndex (ex_index [(''a'', ex_entry 0), (''b'', ex_entry 1)] [''z'', ''a''] []) ''a'' True) = [''z'', ''a''] \<and>
   map_of (idx_notes (removeNoteFromIndex (ex_index [(''a'', ex_entry 0), (''b'', ex_entry 1)] [''z'', ''a''] []) ''a'' True)) ''a'' = None \<and>
   map_of (idx_notes (removeNoteFromIndex (ex_index [(''a'', ex_entry 0), (''b'', ex_entry 1)] [''z'', ''a''] []) ''a'' True)) ''b'' = Some (ex_entry 1)"
  using removeNoteFromIndex_tombstones[of "ex_index [(''a'', ex_entry 0), (''b'', ex_entry 1)] [''z'', ''a''] []" "''a''" True]
  by (simp add: ex_index_def)

text \<open>Claim C8 as stated fails for the rebuild: \<open>VaultManager.rebuildIndex\<close> replaces the
  index by a fresh one whose \<open>deletedNotes\<close> is empty, so the tombstone \<open>a\<close> is gone.\<close>

theorem rebuildIndex_drops_tombstones_counterexample:
  "map_option deletedNotes (v_index (ex_vault (ex_index [] [''a''] []) [])) = Some [''a''] \<and>
   map_option deletedNotes (v_index (snd (vault_rebuildIndex ex_env [] (ex_vault (ex_index [] [''a''] []) [])))) = Some []"
  by (simp add: ex_vault_def ex_index_def vault_rebuildIndex_def saveIndex_def ex_env_def
        rebuildIndex_def createEmptyIndex_def getSortedNotes_def Let_def)

section \<open>Vault manager: updateNote\<close>

lemma updateNote_unknown:
  "map_of (v_notes v) noteId = None \<Longrightarrow> updateNote env noteId updates v = (Returned None, v)"
  by (simp add: updateNote_def)

lemma updateNote_returned:
  assumes "map_of (v_notes v) noteId = Some existing"
    and "updateNote env noteId updates v = (Returned r, v')"
  shows "\<exists>n. r = Some n \<and> note_id n = noteId \<and> created n = created existing \<and>
           updated n = now_op env \<and> map_of (v_notes v') noteId = Some n"
  using assms
  by (auto simp: updateNote_def Let_def saveIndex_def emit_def update_conv'
      split: option.splits if_splits prod.splits outcome.splits)

lemma updateNote_succeeds:
  assumes "map_of (v_notes v) noteId = Some existing"
    and "serializeNote (stringify env) (now_serialize env)
           ((spread existing updates)\<lparr>note_id := noteId, created := created existing,
              updated := now_op env\<rparr>) = Some text_out"
    and "write_ok env (getNoteFilename noteId)" "write_ok env ''index.json''"
    and "listeners_ok env (NoteUpdated ((spread existing updates)\<lparr>note_id := noteId,
           created := created existing, updated := now_op env\<rparr>))"
  shows "\<exists>n v'. updateNote env noteId updates v = (Returned (Some n), v')"
  using assms
  by (auto simp: updateNote_def Let_def saveIndex_def emit_def split: option.splits)

lemma updateNote_write_fails:
  assumes "map_of (v_notes v) noteId = Some existing" "\<not> write_ok env (getNoteFilename noteId)"
  shows "updateNote env noteId updates v = (Threw, v)"
  using assms by (simp add: updateNote_def Let_def split: option.splits)

lemma updateNote_serialize_fails:
  assumes "map_of (v_notes v) noteId = Some existing"
    and "serializeNote (stringify env) (now_serialize env)
           ((spread existing updates)\<lparr>note_id := noteId, created := created existing,
              updated := now_op env\<rparr>) = None"
  shows "updateNote env noteId updates v = (Threw, v)"
  using assms by (simp add: updateNote_def Let_def)

text \<open>
  Claim C6. \<open>updateNote\<close> on an id the cache does not know returns none and leaves the
  vault as it was. On a known id, whatever the update object carries (an \<open>id\<close> and a
  \<open>created\<close> of its own included), a returned note has the id asked for, which is the id of
  the existing note in a cache keyed by id, and the \<open>created\<close> of the existing note, and it
  is the note the cache then holds under that id. The call does return a note when the
  library prints the updated note, both files can be written and the listeners return; it
  rejects, the vault unchanged, when the library throws on the updated note.
\<close>

theorem updateNote_keeps_id_and_created:
  "(map_of (v_notes v) noteId = None \<longrightarrow> updateNote env noteId updates v = (Returned None, v)) \<and>
   (\<forall>existing r v'. map_of (v_notes v) noteId = Some existing \<and>
        updateNote env noteId updates v = (Returned r, v') \<longrightarrow>
        (\<exists>n. r = Some n \<and> note_id n = noteId \<and> created n = created existing \<and>
              map_of (v_notes v') noteId = Some n \<and>
              (cache_keyed v \<longrightarrow> note_id n = note_id existing))) \<and>
   (\<forall>existing text_out. map_of (v_notes v) noteId = Some existing \<and>
        serializeNote (stringify env) (now_serialize env)
           ((spread existing updates)\<lparr>note_id := noteId, created := created existing,
              updated := now_op env\<rparr>) = Some text_out \<and>
        write_ok env (getNoteFilename noteId) \<and> write_ok env ''index.json'' \<and>
        listeners_ok env (NoteUpdated ((spread existing updates)\<lparr>note_id := noteId,
           created := created existing, updated := now_op env\<rparr>)) \<longrightarrow>
        (\<exists>n v'. updateNote env noteId updates v = (Returned (Some n), v'))) \<and>
   (\<forall>existing. map_of (v_notes v) noteId = Some existing \<and>
        serializeNote (stringify env) (now_serialize env)
           ((spread existing updates)\<lparr>note_id := noteId, created := created existing,
              updated := now_op env\<rparr>) = None \<longrightarrow>
        updateNote env noteId updates v = (Threw, v))"
proof (intro conjI allI impI)
  assume "map_of (v_notes v) noteId = None"
  then show "updateNote env noteId updates v = (Returned None, v)" by (rule updateNote_unknown)
next
  fix existing r v'
  assume a: "map_of (v_notes v) noteId = Some existing \<and> updateNote env noteId updates v = (Returned r, v')"
  then obtain n where n: "r = Some n" "note_id n = noteId" "created n = created existing"
      "map_of (v_notes v') noteId = Some n"
    using updateNote_returned by blast
  have "cache_keyed v \<longrightarrow> note_id existing = noteId"
    using a by (auto simp: cache_keyed_def dest!: map_of_SomeD)
  with n show "\<exists>n. r = Some n \<and> note_id n = noteId \<and> created n = created existing \<and>
              map_of (v_notes v') noteId = Some n \<and>
              (cache_keyed v \<longrightarrow> note_id n = note_id existing)" by auto
next
  fix existing text_out
  assume "map_of (v_notes v) noteId = Some existing \<and>
        serializeNote (stringify env) (now_serialize env)
           ((spread existing updates)\<lparr>note_id := noteId, created := created existing,
              updated := now_op env\<rparr>) = Some text_out \<and>
        write_ok env (getNoteFilename noteId) \<and> write_ok env ''index.json'' \<and>
        listeners_ok env (NoteUpdated ((spread existing updates)\<lparr>note_id := noteId,
           created := created existing, updated := now_op env\<rparr>))"
  then show "\<exists>n v'. updateNote env noteId updates v = (Returned (Some n), v')"
    using updateNote_succeeds by blast
next
  fix existing
  assume "map_of (v_notes v) noteId = Some existing \<and>
        serializeNote (stringify env) (now_serialize env)
           ((spread existing updates)\<lparr>note_id := noteId, created := created existing,
              updated := now_op env\<rparr>) = None"
  then show "updateNote env noteId updates v = (Threw, v)"
    using updateNote_serialize_fails by blast
qed

text \<open>The theorem at a vault holding the note \<open>k1\<close>, with an update that carries another
  id and another creation time.\<close>

theorem updateNote_keeps_id_and_created_witness:
  "map_of (v_notes (ex_vault (ex_index [] [] []) [(''k1'', ex_note ''k1'' ''hello'')])) ''k1'' = Some (ex_note ''k1'' ''hello'') \<and>
   cache_keyed (ex_vault (ex_index [] [] []) [(''k1'', ex_note ''k1'' ''hello'')]) \<and>
   write_ok ex_env (getNoteFilename ''k1'') \<and> write_ok ex_env ''index.json'' \<and>
   (\<exists>n v'. updateNote ex_env ''k1'' (no_updates\<lparr>u_id := Some ''other'', u_created := Some ''1999-01-01T00:00:00.000Z'', u_title := Some ''B''\<rparr>)
        (ex_vault (ex_index [] [] []) [(''k1'', ex_note ''k1'' ''hello'')]) = (Returned (Some n), v') \<and>
      note_id n = ''k1'' \<and> created n = ''2024-01-01T00:00:00.000Z'' \<and> title n = ''B'') \<and>
   updateNote ex_env ''k2'' (no_updates\<lparr>u_title := Some ''B''\<rparr>)
        (ex_vault (ex_index [] [] []) [(''k1'', ex_note ''k1'' ''hello'')]) =
     (Returned None, ex_vault (ex_index [] [] []) [(''k1'', ex_note ''k1'' ''hello'')])"
  using updateNote_keeps_id_and_created[of "ex_vault (ex_index [] [] []) [(''k1'', ex_note ''k1'' ''hello'')]" "''k1''" ex_env
      "no_updates\<lparr>u_id := Some ''other'', u_created := Some ''1999-01-01T00:00:00.000Z'', u_title := Some ''B''\<rparr>"]
    updateNote_keeps_id_and_created[of "ex_vault (ex_index [] [] []) [(''k1'', ex_note ''k1'' ''hello'')]" "''k2''" ex_env
      "no_updates\<lparr>u_title := Some ''B''\<rparr>"]
  by (simp add: ex_vault_def ex_note_def ex_env_def cache_keyed_def updateNote_def Let_def
        saveIndex_def emit_def serializeNote_def spread_def no_updates_def)

section \<open>Note parser: properties of the checkbox toggle\<close>

lemma split_on_nonempty: "split_on sep s \<noteq> []"
  by (induction s) (auto split: list.splits)

lemma join_split_on: "join_with [sep] (split_on sep s) = s"
proof (induction s)
  case Nil
  then show ?case by simp
next
  case (Cons c cs)
  obtain p ps where ps: "split_on sep cs = p # ps"
    using split_on_nonempty[of sep cs] by (cases "split_on sep cs") auto
  show ?case
  proof (cases "c = sep")
    case True
    with Cons ps show ?thesis by simp
  next
    case False
    with Cons ps show ?thesis by (cases ps) auto
  qed
qed

lemma split_on_no_sep: "p \<in> set (split_on sep s) \<Longrightarrow> sep \<notin> set p"
  by (induction s arbitrary: p) (auto split: list.splits if_splits)

lemma split_on_id: "sep \<notin> set p \<Longrightarrow> split_on sep p = [p]"
  by (induction p) auto

lemma split_on_append:
  "sep \<notin> set p \<Longrightarrow> split_on sep (p @ sep # s) = p # split_on sep s"
  by (induction p) auto

lemma split_join_with:
  "ls \<noteq> [] \<Longrightarrow> \<forall>p\<in>set ls. sep \<notin> set p \<Longrightarrow> split_on sep (join_with [sep] ls) = ls"
proof (induction ls rule: induct_list012)
  case 1
  then show ?case by simp
next
  case (2 p)
  then show ?case by (simp add: split_on_id)
next
  case (3 p q ps)
  then show ?case by (simp add: split_on_append)
qed

lemma takeWhile_run:
  "\<forall>x\<in>set ws. P x \<Longrightarrow> \<not> P b \<Longrightarrow> takeWhile P (ws @ b # r) = ws"
  by (simp add: takeWhile_append2)

lemma dropWhile_run:
  "\<forall>x\<in>set ws. P x \<Longrightarrow> \<not> P b \<Longrightarrow> dropWhile P (ws @ b # r) = b # r"
  by (simp add: dropWhile_append2)

lemma checkbox_match_shape:
  assumes "checkbox_match line = Some (m1, m, m3)"
  shows "\<exists>ws1 b ws2 r4. line = m1 @ [m] @ m3 \<and> m1 = ws1 @ [b] @ ws2 @ ''['' \<and> m3 = CHR '']'' # r4 \<and>
           (\<forall>x\<in>set ws1. is_space x) \<and> (b = CHR ''-'' \<or> b = CHR ''*'') \<and>
           (\<forall>x\<in>set ws2. is_space x) \<and> ws2 \<noteq> [] \<and>
           (m = CHR '' '' \<or> m = CHR ''x'' \<or> m = CHR ''X'') \<and>
           takeWhile is_space r4 \<noteq> [] \<and> \<not> list_ex is_line_terminator (dropWhile is_space r4)"
proof -
  define ws1 where "ws1 = takeWhile is_space line"
  define r1 where "r1 = dropWhile is_space line"
  have l1: "line = ws1 @ r1" by (simp add: ws1_def r1_def)
  from assms obtain b r2 where r1: "r1 = b # r2" and b: "b = CHR ''-'' \<or> b = CHR ''*''"
    unfolding checkbox_match_def Let_def r1_def[symmetric] ws1_def[symmetric]
    by (auto split: list.splits if_splits)
  define ws2 where "ws2 = takeWhile is_space r2"
  define r3 where "r3 = dropWhile is_space r2"
  have l2: "r2 = ws2 @ r3" by (simp add: ws2_def r3_def)
  from assms r1 b obtain ob cb r4 where r3: "r3 = ob # m # cb # r4" and ws2: "ws2 \<noteq> []"
    and rest: "ob = CHR ''[''" "m = CHR '' '' \<or> m = CHR ''x'' \<or> m = CHR ''X''" "cb = CHR '']''"
       "takeWhile is_space r4 \<noteq> []" "\<not> list_ex is_line_terminator (dropWhile is_space r4)"
    and m1: "m1 = ws1 @ [b] @ ws2 @ [ob]" and m3: "m3 = cb # r4"
    unfolding checkbox_match_def Let_def r1_def[symmetric] ws1_def[symmetric]
    by (simp add: ws2_def[symmetric] r3_def[symmetric] split: list.splits if_splits)
  have "\<forall>x\<in>set ws1. is_space x" unfolding ws1_def by (meson set_takeWhileD)
  moreover have "\<forall>x\<in>set ws2. is_space x" unfolding ws2_def by (meson set_takeWhileD)
  ultimately show ?thesis
    using l1 r1 l2 r3 b ws2 rest m1 m3 by auto
qed

lemma checkbox_match_build:
  assumes "\<forall>x\<in>set ws1. is_space x" "b = CHR ''-'' \<or> b = CHR ''*''"
    "\<forall>x\<in>set ws2. is_space x" "ws2 \<noteq> []"
    "m = CHR '' '' \<or> m = CHR ''x'' \<or> m = CHR ''X''"
    "takeWhile is_space r4 \<noteq> []" "\<not> list_ex is_line_terminator (dropWhile is_space r4)"
  shows "checkbox_match ((ws1 @ [b] @ ws2 @ ''['') @ [m] @ CHR '']'' # r4)
           = Some (ws1 @ [b] @ ws2 @ ''['', m, CHR '']'' # r4)"
proof -
  have nb: "\<not> is_space b" using assms(2) by (auto simp: is_space_def)
  have no: "\<not> is_space CHR ''[''" by (simp add: is_space_def)
  have t1: "takeWhile is_space (ws1 @ b # ws2 @ CHR ''['' # m # CHR '']'' # r4) = ws1"
    using assms(1) nb by (rule takeWhile_run)
  have d1: "dropWhile is_space (ws1 @ b # ws2 @ CHR ''['' # m # CHR '']'' # r4)
              = b # ws2 @ CHR ''['' # m # CHR '']'' # r4"
    using assms(1) nb by (rule dropWhile_run)
  have t2: "takeWhile is_space (ws2 @ CHR ''['' # m # CHR '']'' # r4) = ws2"
    using assms(3) no by (rule takeWhile_run)
  have d2: "dropWhile is_space (ws2 @ CHR ''['' # m # CHR '']'' # r4) = CHR ''['' # m # CHR '']'' # r4"
    using assms(3) no by (rule dropWhile_run)
  show ?thesis
    using assms(2,4,5,6,7) unfolding checkbox_match_def Let_def
    by (simp add: t1 d1 t2 d2)
qed

lemma checkbox_match_replace:
  assumes "checkbox_match line = Some (m1, m, m3)"
    and "m' = CHR '' '' \<or> m' = CHR ''x'' \<or> m' = CHR ''X''"
  shows "checkbox_match (m1 @ [m'] @ m3) = Some (m1, m', m3)"
proof -
  from checkbox_match_shape[OF assms(1)] obtain ws1 b ws2 r4 where
    s: "m1 = ws1 @ [b] @ ws2 @ ''[''" "m3 = CHR '']'' # r4"
       "\<forall>x\<in>set ws1. is_space x" "b = CHR ''-'' \<or> b = CHR ''*''"
       "\<forall>x\<in>set ws2. is_space x" "ws2 \<noteq> []"
       "takeWhile is_space r4 \<noteq> []" "\<not> list_ex is_line_terminator (dropWhile is_space r4)"
    by blast
  show ?thesis
    unfolding s(1,2)
    by (rule checkbox_match_build[OF s(3,4,5,6) assms(2) s(7,8)])
qed

lemma checkbox_match_line: "checkbox_match line = Some (m1, m, m3) \<Longrightarrow> line = m1 @ [m] @ m3"
  using checkbox_match_shape by blast

lemma toggle_out_of_range:
  "lineIndex < 0 \<or> lineIndex \<ge> int (length (split_on CHR 0x0A c)) \<Longrightarrow> toggleCheckbox c lineIndex = c"
  by (auto simp: toggleCheckbox_def Let_def)

lemma toggle_no_match:
  "checkbox_match (split_on CHR 0x0A c ! nat lineIndex) = None \<Longrightarrow> toggleCheckbox c lineIndex = c"
  by (simp add: toggleCheckbox_def Let_def join_split_on)

lemma toggle_match:
  assumes "0 \<le> lineIndex" "lineIndex < int (length (split_on CHR 0x0A c))"
    and "checkbox_match (split_on CHR 0x0A c ! nat lineIndex) = Some (m1, m, m3)"
  shows "toggleCheckbox c lineIndex =
           join_with [CHR 0x0A] ((split_on CHR 0x0A c)[nat lineIndex := m1 @ [flip_marker m] @ m3])"
    and "split_on CHR 0x0A (toggleCheckbox c lineIndex) =
           (split_on CHR 0x0A c)[nat lineIndex := m1 @ [flip_marker m] @ m3]"
proof -
  let ?ls = "split_on CHR 0x0A c"
  let ?n = "nat lineIndex"
  let ?l' = "m1 @ [flip_marker m] @ m3"
  show eq: "toggleCheckbox c lineIndex = join_with [CHR 0x0A] (?ls[?n := ?l'])"
    using assms by (simp add: toggleCheckbox_def Let_def flip_marker_def)
  have n: "?n < length ?ls" using assms(1,2) by simp
  then have mem: "?ls ! ?n \<in> set ?ls" by simp
  have line: "?ls ! ?n = m1 @ [m] @ m3" using assms(3) by (rule checkbox_match_line)
  have "CHR 0x0A \<notin> set (?ls ! ?n)" using mem by (rule split_on_no_sep)
  then have "CHR 0x0A \<notin> set ?l'" unfolding line by (auto simp: flip_marker_def)
  moreover have "\<forall>p\<in>set ?ls. CHR 0x0A \<notin> set p" using split_on_no_sep by blast
  ultimately have "\<forall>p\<in>set (?ls[?n := ?l']). CHR 0x0A \<notin> set p"
    using set_update_subset_insert[of ?ls ?n ?l'] by auto
  moreover have "?ls[?n := ?l'] \<noteq> []" using n by auto
  ultimately show "split_on CHR 0x0A (toggleCheckbox c lineIndex) = ?ls[?n := ?l']"
    unfolding eq by (rule split_join_with[rotated])
qed

lemma flip_marker_cases:
  "flip_marker m = CHR '' '' \<or> flip_marker m = CHR ''x'' \<or> flip_marker m = CHR ''X''"
  by (simp add: flip_marker_def)

lemma flip_flip:
  "m = CHR '' '' \<or> m = CHR ''x'' \<Longrightarrow> flip_marker (flip_marker m) = m"
  by (auto simp: flip_marker_def ascii_lower_def)

lemma flip_flip_flip: "flip_marker (flip_marker (flip_marker m)) = flip_marker m"
  by (auto simp: flip_marker_def ascii_lower_def)

lemma toggle_match_twice:
  assumes "0 \<le> lineIndex" "lineIndex < int (length (split_on CHR 0x0A c))"
    and "checkbox_match (split_on CHR 0x0A c ! nat lineIndex) = Some (m1, m, m3)"
  shows "checkbox_match (split_on CHR 0x0A (toggleCheckbox c lineIndex) ! nat lineIndex)
           = Some (m1, flip_marker m, m3)"
    and "lineIndex < int (length (split_on CHR 0x0A (toggleCheckbox c lineIndex)))"
proof -
  have n: "nat lineIndex < length (split_on CHR 0x0A c)" using assms(1,2) by simp
  show "checkbox_match (split_on CHR 0x0A (toggleCheckbox c lineIndex) ! nat lineIndex)
           = Some (m1, flip_marker m, m3)"
    unfolding toggle_match(2)[OF assms] using n
    by (simp add: checkbox_match_replace[OF assms(3) flip_marker_cases] del: append.simps)
  show "lineIndex < int (length (split_on CHR 0x0A (toggleCheckbox c lineIndex)))"
    unfolding toggle_match(2)[OF assms] using assms(2) by simp
qed

lemma toggle_twice_eq:
  assumes "0 \<le> lineIndex" "lineIndex < int (length (split_on CHR 0x0A c))"
    and "checkbox_match (split_on CHR 0x0A c ! nat lineIndex) = Some (m1, m, m3)"
  shows "toggleCheckbox (toggleCheckbox c lineIndex) lineIndex =
           join_with [CHR 0x0A] ((split_on CHR 0x0A c)[nat lineIndex := m1 @ [flip_marker (flip_marker m)] @ m3])"
  using toggle_match(1)[OF assms(1) toggle_match_twice(2)[OF assms] toggle_match_twice(1)[OF assms]]
  by (simp add: toggle_match(2)[OF assms])

lemma toggle_involution_lower:
  assumes "\<not> upper_marker c lineIndex"
  shows "toggleCheckbox (toggleCheckbox c lineIndex) lineIndex = c"
proof (cases "lineIndex < 0 \<or> lineIndex \<ge> int (length (split_on CHR 0x0A c))")
  case True
  then show ?thesis by (simp add: toggle_out_of_range)
next
  case False
  then have r: "0 \<le> lineIndex" "lineIndex < int (length (split_on CHR 0x0A c))" by auto
  show ?thesis
  proof (cases "checkbox_match (split_on CHR 0x0A c ! nat lineIndex)")
    case None
    then show ?thesis by (simp add: toggle_no_match)
  next
    case (Some t)
    obtain m1 m m3 where t: "t = (m1, m, m3)" by (cases t)
    have cm: "checkbox_match (split_on CHR 0x0A c ! nat lineIndex) = Some (m1, m, m3)"
      using Some t by simp
    have "m \<noteq> CHR ''X''" using assms r cm by (auto simp: upper_marker_def Let_def)
    moreover have "m = CHR '' '' \<or> m = CHR ''x'' \<or> m = CHR ''X''"
      using checkbox_match_shape[OF cm] by blast
    ultimately have ff: "flip_marker (flip_marker m) = m" by (auto intro: flip_flip)
    have line: "split_on CHR 0x0A c ! nat lineIndex = m1 @ [m] @ m3"
      using cm by (rule checkbox_match_line)
    show ?thesis
      unfolding toggle_twice_eq[OF r cm] ff line[symmetric]
      by (simp add: join_split_on)
  qed
qed

lemma toggle_thrice:
  "toggleCheckbox (toggleCheckbox (toggleCheckbox c lineIndex) lineIndex) lineIndex = toggleCheckbox c lineIndex"
proof (cases "lineIndex < 0 \<or> lineIndex \<ge> int (length (split_on CHR 0x0A c))")
  case True
  then show ?thesis by (simp add: toggle_out_of_range)
next
  case False
  then have r: "0 \<le> lineIndex" "lineIndex < int (length (split_on CHR 0x0A c))" by auto
  show ?thesis
  proof (cases "checkbox_match (split_on CHR 0x0A c ! nat lineIndex)")
    case None
    then show ?thesis by (simp add: toggle_no_match)
  next
    case (Some t)
    obtain m1 m m3 where t: "t = (m1, m, m3)" by (cases t)
    have cm: "checkbox_match (split_on CHR 0x0A c ! nat lineIndex) = Some (m1, m, m3)"
      using Some t by simp
    let ?c1 = "toggleCheckbox c lineIndex"
    have r1: "lineIndex < int (length (split_on CHR 0x0A ?c1))"
      by (rule toggle_match_twice(2)[OF r cm])
    have cm1: "checkbox_match (split_on CHR 0x0A ?c1 ! nat lineIndex) = Some (m1, flip_marker m, m3)"
      by (rule toggle_match_twice(1)[OF r cm])
    show ?thesis
      unfolding toggle_twice_eq[OF r(1) r1 cm1] toggle_match(2)[OF r cm] flip_flip_flip
      using toggle_match(1)[OF r cm] by simp
  qed
qed

section \<open>Note parser: the toggle twice\<close>

text \<open>
  Claim C10, as the code has it. Toggling the same line twice gives the content back unless
  that line is a checkbox with the upper-case marker \<open>X\<close>; in every case a third toggle
  gives what the first one gave (the second toggle only normalises \<open>X\<close> to \<open>x\<close>). An index
  that is negative or not below the number of lines leaves the content as it is, and so does
  a line that is not a checkbox; on a checkbox line the toggle replaces the marker, and
  nothing else, by a blank when it is \<open>x\<close> or \<open>X\<close> and by \<open>x\<close> when it is a blank.
\<close>

theorem toggleCheckbox_twice:
  "(\<not> upper_marker c lineIndex \<longrightarrow> toggleCheckbox (toggleCheckbox c lineIndex) lineIndex = c) \<and>
   toggleCheckbox (toggleCheckbox (toggleCheckbox c lineIndex) lineIndex) lineIndex
     = toggleCheckbox c lineIndex \<and>
   (lineIndex < 0 \<or> lineIndex \<ge> int (length (split_on CHR 0x0A c)) \<longrightarrow>
      toggleCheckbox c lineIndex = c) \<and>
   (checkbox_match (split_on CHR 0x0A c ! nat lineIndex) = None \<longrightarrow>
      toggleCheckbox c lineIndex = c) \<and>
   (\<forall>m1 m m3. 0 \<le> lineIndex \<and> lineIndex < int (length (split_on CHR 0x0A c)) \<and>
      checkbox_match (split_on CHR 0x0A c ! nat lineIndex) = Some (m1, m, m3) \<longrightarrow>
      split_on CHR 0x0A c ! nat lineIndex = m1 @ [m] @ m3 \<and>
      toggleCheckbox c lineIndex =
        join_with [CHR 0x0A] ((split_on CHR 0x0A c)[nat lineIndex := m1 @ [flip_marker m] @ m3]))"
proof -
  have a: "\<not> upper_marker c lineIndex \<longrightarrow> toggleCheckbox (toggleCheckbox c lineIndex) lineIndex = c"
    using toggle_involution_lower[of c lineIndex] by simp
  have b: "toggleCheckbox (toggleCheckbox (toggleCheckbox c lineIndex) lineIndex) lineIndex
             = toggleCheckbox c lineIndex"
    by (rule toggle_thrice)
  have d: "lineIndex < 0 \<or> lineIndex \<ge> int (length (split_on CHR 0x0A c)) \<longrightarrow>
             toggleCheckbox c lineIndex = c"
    using toggle_out_of_range[of lineIndex c] by simp
  have e: "checkbox_match (split_on CHR 0x0A c ! nat lineIndex) = None \<longrightarrow>
             toggleCheckbox c lineIndex = c"
    using toggle_no_match[of c lineIndex] by simp
  have f: "\<forall>m1 m m3. 0 \<le> lineIndex \<and> lineIndex < int (length (split_on CHR 0x0A c)) \<and>
      checkbox_match (split_on CHR 0x0A c ! nat lineIndex) = Some (m1, m, m3) \<longrightarrow>
      split_on CHR 0x0A c ! nat lineIndex = m1 @ [m] @ m3 \<and>
      toggleCheckbox c lineIndex =
        join_with [CHR 0x0A] ((split_on CHR 0x0A c)[nat lineIndex := m1 @ [flip_marker m] @ m3])"
    using toggle_match(1)[of lineIndex c] checkbox_match_line by simp
  from a b d e f show ?thesis by simp
qed

text \<open>The theorem on a two-line content, toggled at its second line.\<close>

theorem toggleCheckbox_twice_witness:
  "\<not> upper_marker ''- [ ] a\<newline>- [x] b'' 1 \<and>
   toggleCheckbox ''- [ ] a\<newline>- [x] b'' 1 = ''- [ ] a\<newline>- [ ] b'' \<and>
   toggleCheckbox (toggleCheckbox ''- [ ] a\<newline>- [x] b'' 1) 1 = ''- [ ] a\<newline>- [x] b''"
proof -
  have u: "\<not> upper_marker ''- [ ] a\<newline>- [x] b'' 1" by code_simp
  have t: "toggleCheckbox ''- [ ] a\<newline>- [x] b'' 1 = ''- [ ] a\<newline>- [ ] b''" by code_simp
  show ?thesis using u t toggleCheckbox_twice[of "''- [ ] a\<newline>- [x] b''" 1] by simp
qed

text \<open>Claim C10 as stated fails on an upper-case marker: \<open>- [X] a\<close> toggled twice is
  \<open>- [x] a\<close>.\<close>

theorem toggleCheckbox_upper_case_counterexample:
  "toggleCheckbox (toggleCheckbox ''- [X] a'' 0) 0 = ''- [x] a'' \<and>
   toggleCheckbox (toggleCheckbox ''- [X] a'' 0) 0 \<noteq> ''- [X] a''"
  by code_simp

section \<open>Conflict resolver: the original id\<close>

lemma greedy_capture_Some:
  "greedy_capture tail k f = Some g \<Longrightarrow>
   \<exists>j. 0 < j \<and> j \<le> k \<and> g = take j f \<and> \<not> list_ex is_line_terminator g \<and> tail (drop j f)"
proof (induction k)
  case 0
  then show ?case by simp
next
  case (Suc k)
  show ?case
  proof (cases "\<not> list_ex is_line_terminator (take (Suc k) f) \<and> tail (drop (Suc k) f)")
    case True
    with Suc.prems have "g = take (Suc k) f" by simp
    with True show ?thesis by blast
  next
    case False
    with Suc.prems have "greedy_capture tail k f = Some g" by auto
    from Suc.IH[OF this] obtain j where "0 < j" "j \<le> k" "g = take j f"
      "\<not> list_ex is_line_terminator g" "tail (drop j f)" by blast
    then have "0 < j \<and> j \<le> Suc k \<and> g = take j f \<and> \<not> list_ex is_line_terminator g \<and> tail (drop j f)"
      by simp
    then show ?thesis by blast
  qed
qed

lemma greedy_capture_longest:
  assumes "0 < j" "j \<le> k"
    and "\<not> list_ex is_line_terminator (take j f)" "tail (drop j f)"
    and "\<And>i. j < i \<Longrightarrow> i \<le> k \<Longrightarrow> \<not> tail (drop i f)"
  shows "greedy_capture tail k f = Some (take j f)"
  using assms
proof (induction k)
  case 0
  then show ?case by simp
next
  case (Suc k)
  show ?case
  proof (cases "j = Suc k")
    case True
    with Suc.prems show ?thesis by simp
  next
    case False
    with Suc.prems have jk: "j \<le> k" "j < Suc k" by auto
    then have "\<not> tail (drop (Suc k) f)" using Suc.prems(5) by blast
    moreover have "greedy_capture tail k f = Some (take j f)"
      using Suc.IH[OF Suc.prems(1) jk(1) Suc.prems(3,4)] Suc.prems(5) by auto
    ultimately show ?thesis by simp
  qed
qed

lemma dropbox_tail_needs_paren:
  assumes "dropbox_tail rest"
  shows "\<exists>ws body. rest = ws @ CHR ''('' # body \<and> ws \<noteq> [] \<and> (\<forall>c\<in>set ws. is_space c)"
proof -
  have "rest = takeWhile is_space rest @ dropWhile is_space rest" by simp
  moreover have "\<forall>c\<in>set (takeWhile is_space rest). is_space c" by (meson set_takeWhileD)
  moreover from assms obtain body where "dropWhile is_space rest = CHR ''('' # body"
    and "takeWhile is_space rest \<noteq> []"
    by (auto simp: dropbox_tail_def Let_def split: list.splits)
  ultimately show ?thesis by metis
qed

lemma no_paren_no_tail:
  assumes "CHR ''('' \<notin> set (tl rest)"
  shows "\<not> dropbox_tail rest"
proof
  assume "dropbox_tail rest"
  then obtain ws body where r: "rest = ws @ CHR ''('' # body" "ws \<noteq> []"
    using dropbox_tail_needs_paren by blast
  then have "CHR ''('' \<in> set (tl rest)" by (cases ws) auto
  with assms show False by simp
qed

lemma is_date_no_paren: "is_date d \<Longrightarrow> CHR ''('' \<notin> set d"
proof
  assume d: "is_date d" and m: "CHR ''('' \<in> set d"
  from m obtain i where i: "i < length d" "d ! i = CHR ''(''" by (auto simp: in_set_conv_nth)
  from d have len: "length d = 10" by (simp add: is_date_def)
  have dig: "\<And>c. c \<in> set (take 4 d) \<or> c \<in> set (take 2 (drop 5 d)) \<or> c \<in> set (drop 8 d) \<Longrightarrow> is_digit c"
    using d by (auto simp: is_date_def list_all_iff)
  have np: "\<not> is_digit CHR ''(''" by (simp add: is_digit_def)
  from i len have "i \<in> {0..<10}" by simp
  then consider "i < 4" | "i = 4" | "i = 5 \<or> i = 6" | "i = 7" | "i = 8 \<or> i = 9" by force
  then show False
  proof cases
    case 1
    then have "d ! i = take 4 d ! i" by simp
    moreover have "i < length (take 4 d)" using 1 len by auto
    ultimately have "d ! i \<in> set (take 4 d)" by (metis nth_mem)
    then show False using dig i np by auto
  next
    case 2
    then show False using d i by (simp add: is_date_def)
  next
    case 3
    then have "d ! i = take 2 (drop 5 d) ! (i - 5)" using len by auto
    moreover have "i - 5 < length (take 2 (drop 5 d))" using 3 len by auto
    ultimately have "d ! i \<in> set (take 2 (drop 5 d))" by (metis nth_mem)
    then show False using dig i np by auto
  next
    case 4
    then show False using d i by (simp add: is_date_def)
  next
    case 5
    then have "d ! i = drop 8 d ! (i - 8)" using len by auto
    moreover have "i - 8 < length (drop 8 d)" using 5 len by auto
    ultimately have "d ! i \<in> set (drop 8 d)" by (metis nth_mem)
    then show False using dig i np by auto
  qed
qed


lemma uuid_shape_no_terminator: "uuid_shape x \<Longrightarrow> \<not> list_ex is_line_terminator x"
proof -
  have "\<And>c. is_hex_or_dash c \<Longrightarrow> \<not> is_line_terminator c"
    by (auto simp: is_hex_or_dash_def is_line_terminator_def is_digit_def ascii_lower_def)
  then show "uuid_shape x \<Longrightarrow> \<not> list_ex is_line_terminator x"
    by (auto simp: uuid_shape_def list_all_iff list_ex_iff)
qed

lemma dropbox_tail_marker:
  assumes "actor \<noteq> []" "\<not> list_ex is_line_terminator actor" "is_date d"
  shows "dropbox_tail ('' ('' @ actor @ CHR 0x27 # ''s conflicted copy '' @ d @ '').md'')"
proof -
  define T where "T = CHR 0x27 # ''s conflicted copy '' @ d @ '').md''"
  have len: "length d = 10" using assms(3) by (simp add: is_date_def)
  have lT: "length T = 33" using len by (simp add: T_def)
  have e: "'' ('' @ actor @ T = CHR '' '' # CHR ''('' # (actor @ T)" by simp
  have tw: "takeWhile is_space (CHR '' '' # CHR ''('' # (actor @ T)) = '' ''"
    and dw: "dropWhile is_space (CHR '' '' # CHR ''('' # (actor @ T)) = CHR ''('' # (actor @ T)"
    by (simp_all add: is_space_def)
  have body: "length (actor @ T) - 33 = length actor" using lT by simp
  have a: "take (length (actor @ T) - 33) (actor @ T) = actor"
    and t: "drop (length (actor @ T) - 33) (actor @ T) = T"
    unfolding body by simp_all
  have p: "take 19 T = CHR 0x27 # ''s conflicted copy ''" "take 10 (drop 19 T) = d" "drop 29 T = '').md''"
    using len by (simp_all add: T_def)
  have l: "33 < length (actor @ T)" using lT assms(1) by (cases actor) auto
  have "dropbox_tail ('' ('' @ actor @ T)"
    unfolding dropbox_tail_def Let_def e tw dw list.case a t p
    using l assms(2,3) by (simp add: ci_eq_def del: length_append take_append drop_append)
  then show ?thesis by (simp add: T_def)
qed

lemma tl_drop_Suc: "tl (drop i xs) = drop (Suc i) xs"
  by (simp add: drop_Suc tl_drop)

lemma drop_past_prefix: "length p \<le> n \<Longrightarrow> set (drop n (p @ q)) \<subseteq> set q"
  using set_drop_subset[of "n - length p" q] by simp

lemma dropbox_pattern_marker:
  assumes "uuid_shape x" "actor \<noteq> []" "CHR ''('' \<notin> set actor"
    "\<not> list_ex is_line_terminator actor" "is_date d"
  shows "DROPBOX_CONFLICT_PATTERN (x @ '' ('' @ actor @ CHR 0x27 # ''s conflicted copy '' @ d @ '').md'') = Some x"
proof -
  define T where "T = CHR 0x27 # ''s conflicted copy '' @ d @ '').md''"
  define f where "f = x @ '' ('' @ actor @ T"
  have lx: "length x = 36" using assms(1) by (simp add: uuid_shape_def)
  have tk: "take 36 f = x" and dr: "drop 36 f = '' ('' @ actor @ T"
    using lx by (simp_all add: f_def)
  have f2: "f = (x @ '' ('') @ (actor @ T)" by (simp add: f_def)
  have noT: "CHR ''('' \<notin> set (actor @ T)"
    using assms(3) is_date_no_paren[OF assms(5)] by (auto simp: T_def)
  have later: "\<not> dropbox_tail (drop i f)" if "36 < i" for i
  proof (rule no_paren_no_tail)
    have "length (x @ '' ('') \<le> Suc i" using that lx by simp
    then have "set (drop (Suc i) f) \<subseteq> set (actor @ T)"
      unfolding f2 by (rule drop_past_prefix)
    with noT show "CHR ''('' \<notin> set (tl (drop i f))" unfolding tl_drop_Suc by blast
  qed
  have "greedy_capture dropbox_tail (length f) f = Some (take 36 f)"
  proof (rule greedy_capture_longest)
    show "0 < (36::nat)" by simp
    show "36 \<le> length f" using lx by (simp add: f_def)
    show "\<not> list_ex is_line_terminator (take 36 f)"
      unfolding tk using assms(1) by (rule uuid_shape_no_terminator)
    show "dropbox_tail (drop 36 f)"
      unfolding dr T_def using assms(2,4,5) by (rule dropbox_tail_marker)
    show "\<And>i. 36 < i \<Longrightarrow> i \<le> length f \<Longrightarrow> \<not> dropbox_tail (drop i f)" using later by blast
  qed
  then have "greedy_capture dropbox_tail (length f) f = Some x" using tk by simp
  then show ?thesis unfolding DROPBOX_CONFLICT_PATTERN_def f_def T_def by simp
qed

lemma getOriginalId_sound:
  assumes "getOriginalIdFromConflict f = Some x"
  shows "uuid_shape x \<and> isConflictFile f \<and> (\<exists>rest. f = x @ rest \<and> (dropbox_tail rest \<or> alt_tail rest))"
proof -
  from assms have m: "conflict_match f = Some x" and u: "uuid_shape x"
    by (auto simp: getOriginalIdFromConflict_def split: option.splits if_splits)
  from m consider "DROPBOX_CONFLICT_PATTERN f = Some x" | "ALT_CONFLICT_PATTERN f = Some x"
    by (auto simp: conflict_match_def split: option.splits)
  then show ?thesis
  proof cases
    case 1
    then obtain j where "x = take j f" "dropbox_tail (drop j f)"
      unfolding DROPBOX_CONFLICT_PATTERN_def using greedy_capture_Some by blast
    then have "f = x @ drop j f \<and> dropbox_tail (drop j f)" by simp
    with 1 u show ?thesis unfolding isConflictFile_def by blast
  next
    case 2
    then obtain j where "x = take j f" "alt_tail (drop j f)"
      unfolding ALT_CONFLICT_PATTERN_def using greedy_capture_Some by blast
    then have "f = x @ drop j f \<and> alt_tail (drop j f)" by simp
    with 2 u show ?thesis unfolding isConflictFile_def by blast
  qed
qed

lemma getOriginalId_marker:
  assumes "uuid_shape x" "actor \<noteq> []" "CHR ''('' \<notin> set actor"
    "\<not> list_ex is_line_terminator actor" "is_date d"
  shows "getOriginalIdFromConflict (x @ '' ('' @ actor @ CHR 0x27 # ''s conflicted copy '' @ d @ '').md'') = Some x"
  using dropbox_pattern_marker[OF assms] assms(1)
  by (simp add: getOriginalIdFromConflict_def conflict_match_def)

lemma id1_example:
  "conflict_match ''id1 (Bob's conflicted copy 2024-01-01).md'' = Some ''id1''"
  "getOriginalIdFromConflict ''id1 (Bob's conflicted copy 2024-01-01).md'' = None"
  "isConflictFile ''id1 (Bob's conflicted copy 2024-01-01).md''"
  by code_simp+

text \<open>
  Claim C9, as the code has it. \<open>getOriginalIdFromConflict\<close> returns the first capture of
  the conflict pattern (the file name without its marker suffix) exactly when that capture
  has the identifier shape, 36 characters of \<open>[0-9a-fA-F-]\<close>, and none otherwise; what it
  returns is followed in the file name by a marker suffix. On an identifier of that shape
  followed by the marker of an actor (a name without parenthesis or line terminator) and a
  date, it returns the identifier. On \<open>id1 (Bob's conflicted copy 2024-01-01).md\<close> the
  capture is \<open>id1\<close>, which has not the shape, and the result is none.
\<close>

theorem getOriginalIdFromConflict_shape:
  "(getOriginalIdFromConflict f = Some x \<longrightarrow>
      conflict_match f = Some x \<and> uuid_shape x \<and> isConflictFile f \<and>
      (\<exists>rest. f = x @ rest \<and> (dropbox_tail rest \<or> alt_tail rest))) \<and>
   (getOriginalIdFromConflict f = None \<longleftrightarrow>
      (case conflict_match f of None \<Rightarrow> True | Some g \<Rightarrow> \<not> uuid_shape g)) \<and>
   (uuid_shape x \<and> actor \<noteq> [] \<and> CHR ''('' \<notin> set actor \<and>
    \<not> list_ex is_line_terminator actor \<and> is_date d \<longrightarrow>
      getOriginalIdFromConflict
        (x @ '' ('' @ actor @ CHR 0x27 # ''s conflicted copy '' @ d @ '').md'') = Some x) \<and>
   conflict_match ''id1 (Bob's conflicted copy 2024-01-01).md'' = Some ''id1'' \<and>
   getOriginalIdFromConflict ''id1 (Bob's conflicted copy 2024-01-01).md'' = None"
proof (intro conjI impI)
  assume a: "getOriginalIdFromConflict f = Some x"
  then show "conflict_match f = Some x"
    by (auto simp: getOriginalIdFromConflict_def split: option.splits if_splits)
  from getOriginalId_sound[OF a] show "uuid_shape x" "isConflictFile f"
    "\<exists>rest. f = x @ rest \<and> (dropbox_tail rest \<or> alt_tail rest)" by blast+
next
  show "getOriginalIdFromConflict f = None \<longleftrightarrow>
      (case conflict_match f of None \<Rightarrow> True | Some g \<Rightarrow> \<not> uuid_shape g)"
    by (simp add: getOriginalIdFromConflict_def split: option.splits)
next
  assume "uuid_shape x \<and> actor \<noteq> [] \<and> CHR ''('' \<notin> set actor \<and>
    \<not> list_ex is_line_terminator actor \<and> is_date d"
  then show "getOriginalIdFromConflict
        (x @ '' ('' @ actor @ CHR 0x27 # ''s conflicted copy '' @ d @ '').md'') = Some x"
    using getOriginalId_marker by blast
next
  show "conflict_match ''id1 (Bob's conflicted copy 2024-01-01).md'' = Some ''id1''"
    by (rule id1_example)
  show "getOriginalIdFromConflict ''id1 (Bob's conflicted copy 2024-01-01).md'' = None"
    by (rule id1_example)
qed

text \<open>The theorem on the conflicted copy of a note whose id is a UUID.\<close>

theorem getOriginalIdFromConflict_shape_witness:
  "uuid_shape ''123e4567-e89b-12d3-a456-426614174000'' \<and> is_date ''2024-01-01'' \<and>
   getOriginalIdFromConflict
     ''123e4567-e89b-12d3-a456-426614174000 (Bob's conflicted copy 2024-01-01).md''
     = Some ''123e4567-e89b-12d3-a456-426614174000'' \<and>
   isConflictFile ''123e4567-e89b-12d3-a456-426614174000 (Bob's conflicted copy 2024-01-01).md''"
proof -
  have u: "uuid_shape ''123e4567-e89b-12d3-a456-426614174000''" by code_simp
  have d: "is_date ''2024-01-01''" by code_simp
  have a: "\<not> list_ex is_line_terminator ''Bob''" by code_simp
  have g: "getOriginalIdFromConflict
     ''123e4567-e89b-12d3-a456-426614174000 (Bob's conflicted copy 2024-01-01).md''
     = Some ''123e4567-e89b-12d3-a456-426614174000''"
    using getOriginalIdFromConflict_shape[of _ "''123e4567-e89b-12d3-a456-426614174000''" "''Bob''" "''2024-01-01''"]
      u d a by simp
  show ?thesis
    using u d g getOriginalIdFromConflict_shape[of
        "''123e4567-e89b-12d3-a456-426614174000 (Bob's conflicted copy 2024-01-01).md''"
        "''123e4567-e89b-12d3-a456-426614174000''"]
    by simp
qed

text \<open>Claim C9 as stated fails on its own example: the file name is a conflict file, but
  the result is not \<open>id1\<close>.\<close>

theorem getOriginalIdFromConflict_id1_counterexample:
  "isConflictFile ''id1 (Bob's conflicted copy 2024-01-01).md'' \<and>
   getOriginalIdFromConflict ''id1 (Bob's conflicted copy 2024-01-01).md'' \<noteq> Some ''id1''"
  by code_simp

section \<open>The two parsers: defaults and the round trip\<close>

lemma split_first_Some:
  "split_first lit s = Some (a, b) \<Longrightarrow> s = a @ lit @ b"
proof (induction s arbitrary: a)
  case Nil
  then show ?case by (auto split: if_splits)
next
  case (Cons c cs)
  show ?case
  proof (cases "take (length lit) (c # cs) = lit")
    case True
    with Cons.prems have "a = []" "b = drop (length lit) (c # cs)" by auto
    with True show ?thesis by (metis append_Nil append_take_drop_id)
  next
    case False
    with Cons.prems obtain a' where "split_first lit cs = Some (a', b)" "a = c # a'"
      by (auto split: option.splits)
    with Cons.IH show ?thesis by auto
  qed
qed

lemma split_first_None:
  "split_first lit s = None \<Longrightarrow> s \<noteq> a @ lit @ b"
proof (induction s arbitrary: a)
  case Nil
  then show ?case by (auto split: if_splits)
next
  case (Cons c cs)
  from Cons.prems have nt: "take (length lit) (c # cs) \<noteq> lit" and r: "split_first lit cs = None"
    by (auto split: if_splits option.splits)
  show ?case
  proof (cases a)
    case Nil
    show ?thesis
    proof
      assume "c # cs = a @ lit @ b"
      then have "take (length lit) (c # cs) = lit" using Nil by simp
      with nt show False by simp
    qed
  next
    case (Cons x a')
    with Cons.IH[OF r, of a'] show ?thesis by auto
  qed
qed

lemma split_first_None_iff:
  "split_first lit s = None \<longleftrightarrow> \<not> (\<exists>a b. s = a @ lit @ b)"
proof
  assume "split_first lit s = None"
  then show "\<not> (\<exists>a b. s = a @ lit @ b)" using split_first_None by blast
next
  assume n: "\<not> (\<exists>a b. s = a @ lit @ b)"
  show "split_first lit s = None"
  proof (cases "split_first lit s")
    case None
    then show ?thesis .
  next
    case (Some p)
    then obtain a b where "split_first lit s = Some (a, b)" by (cases p) auto
    then have "s = a @ lit @ b" by (rule split_first_Some)
    with n show ?thesis by blast
  qed
qed

lemma frontmatter_match_None_iff:
  "frontmatter_match c = None \<longleftrightarrow>
     \<not> (\<exists>fm body. c = ''---\<newline>'' @ fm @ ''\<newline>---\<newline>'' @ body)"
proof
  assume a: "frontmatter_match c = None"
  show "\<not> (\<exists>fm body. c = ''---\<newline>'' @ fm @ ''\<newline>---\<newline>'' @ body)"
  proof
    assume "\<exists>fm body. c = ''---\<newline>'' @ fm @ ''\<newline>---\<newline>'' @ body"
    then obtain fm body where c: "c = ''---\<newline>'' @ fm @ ''\<newline>---\<newline>'' @ body" by blast
    then have "take 4 c = ''---\<newline>''" "drop 4 c = fm @ ''\<newline>---\<newline>'' @ body" by simp_all
    with a have "split_first ''\<newline>---\<newline>'' (fm @ ''\<newline>---\<newline>'' @ body) = None"
      by (simp add: frontmatter_match_def)
    then show False using split_first_None by blast
  qed
next
  assume n: "\<not> (\<exists>fm body. c = ''---\<newline>'' @ fm @ ''\<newline>---\<newline>'' @ body)"
  show "frontmatter_match c = None"
  proof (cases "take 4 c = ''---\<newline>''")
    case False
    then show ?thesis by (simp add: frontmatter_match_def)
  next
    case True
    then have c: "c = ''---\<newline>'' @ drop 4 c" by (metis append_take_drop_id)
    have "split_first ''\<newline>---\<newline>'' (drop 4 c) = None"
    proof (rule ccontr)
      assume "split_first ''\<newline>---\<newline>'' (drop 4 c) \<noteq> None"
      then obtain a b where "split_first ''\<newline>---\<newline>'' (drop 4 c) = Some (a, b)" by auto
      then have "drop 4 c = a @ ''\<newline>---\<newline>'' @ b" by (rule split_first_Some)
      with c have "c = ''---\<newline>'' @ a @ ''\<newline>---\<newline>'' @ b" by simp
      with n show False by blast
    qed
    with True show ?thesis by (simp add: frontmatter_match_def)
  qed
qed

lemma parse_line_keys:
  "fst ` set (parse_line line data) =
     fst ` set data \<union> (if length (split_on CHR '':'' line) \<ge> 2 then {trim (hd (split_on CHR '':'' line))} else {})"
  by (auto simp: parse_line_def Let_def dom_update)

lemma fold_parse_line_keys:
  "fst ` set (fold parse_line ls data) =
     fst ` set data \<union> {k. \<exists>line\<in>set ls. length (split_on CHR '':'' line) \<ge> 2 \<and> trim (hd (split_on CHR '':'' line)) = k}"
proof (induction ls arbitrary: data)
  case Nil
  then show ?case by simp
next
  case (Cons l ls)
  show ?case unfolding fold_simps Cons.IH parse_line_keys by auto
qed

lemma parse_frontmatter_missing:
  "map_of (parse_frontmatter fm) k = None \<longleftrightarrow> \<not> has_key fm k"
proof -
  have "map_of (parse_frontmatter fm) k = None \<longleftrightarrow> k \<notin> fst ` set (parse_frontmatter fm)"
    by (simp add: map_of_eq_None_iff)
  also have "\<dots> \<longleftrightarrow> \<not> has_key fm k"
    unfolding parse_frontmatter_def fold_parse_line_keys has_key_def by auto
  finally show ?thesis .
qed


lemma parse_line_lookup:
  "map_of (parse_line line data) k =
     (if line_key line = Some k then Some (parse_value (line_text line)) else map_of data k)"
  by (auto simp: parse_line_def line_key_def line_text_def Let_def update_conv')

lemma fold_parse_line_lookup:
  "map_of (fold parse_line ls data) k =
     (case filter (\<lambda>line. line_key line = Some k) ls of
        [] \<Rightarrow> map_of data k
      | l # ls' \<Rightarrow> Some (parse_value (line_text (last (l # ls')))))"
proof (induction ls arbitrary: data)
  case Nil
  then show ?case by simp
next
  case (Cons a ls)
  show ?case
  proof (cases "filter (\<lambda>line. line_key line = Some k) ls")
    case Nil
    then show ?thesis using Cons.IH[of "parse_line a data"] by (simp add: parse_line_lookup)
  next
    case (Cons b bs)
    then show ?thesis using Cons.IH[of "parse_line a data"] by simp
  qed
qed

lemma parse_frontmatter_lookup:
  "map_of (parse_frontmatter fm) k = map_option parse_value (field_text fm k)"
  unfolding parse_frontmatter_def field_text_def fold_parse_line_lookup
  by (simp split: list.splits)

lemma has_key_field_text: "has_key fm k \<longleftrightarrow> field_text fm k \<noteq> None"
proof -
  have "has_key fm k \<longleftrightarrow> (\<exists>line \<in> set (split_on CHR 0x0A fm). line_key line = Some k)"
    by (auto simp: has_key_def line_key_def Let_def)
  also have "\<dots> \<longleftrightarrow> filter (\<lambda>line. line_key line = Some k) (split_on CHR 0x0A fm) \<noteq> []"
    by (simp add: filter_empty_conv)
  also have "\<dots> \<longleftrightarrow> field_text fm k \<noteq> None"
    by (simp add: field_text_def split: list.splits)
  finally show ?thesis .
qed

lemma parse_value_true: "parse_value v = JBool True \<longleftrightarrow> v = ''true''"
  by (auto simp: parse_value_def)

lemma parse_value_truthy: "js_truthy (parse_value v) \<longleftrightarrow> v \<noteq> [] \<and> v \<noteq> ''false''"
  by (auto simp: parse_value_def)

lemma parse_value_list:
  "parse_value v = JArr ts \<longleftrightarrow> bracketed v \<and> ts = list_items v"
  by (auto simp: parse_value_def bracketed_def list_items_def)

lemma js_or_field:
  "js_or (map_option parse_value t) d =
     (case t of None \<Rightarrow> d | Some v \<Rightarrow> if v = [] \<or> v = ''false'' then d else parse_value v)"
  by (cases t) (simp_all add: js_or_def parse_value_truthy)

lemma m_parseNote_fields:
  assumes "frontmatter_match c = Some (fm, body)"
  shows "m_parseNote now1 now2 c filename =
           Some \<lparr>p_id = js_or (map_option parse_value (field_text fm ''id'')) (JStr (replace_first ''.md'' filename)),
                 p_title = js_or (map_option parse_value (field_text fm ''title'')) (JStr ''Untitled''),
                 p_content = trim body,
                 p_created = js_or (map_option parse_value (field_text fm ''created'')) (JStr now1),
                 p_updated = js_or (map_option parse_value (field_text fm ''updated'')) (JStr now2),
                 p_pinned = (field_text fm ''pinned'' = Some ''true''),
                 p_color = js_or (map_option parse_value (field_text fm ''color'')) (JStr ''#FFE066''),
                 p_tags = (case field_text fm ''tags'' of
                             None \<Rightarrow> []
                           | Some v \<Rightarrow> if bracketed v then list_items v else [])\<rparr>"
proof -
  have pin: "(map_option parse_value (field_text fm ''pinned'') = Some (JBool True))
               = (field_text fm ''pinned'' = Some ''true'')"
    by (cases "field_text fm ''pinned''") (simp_all add: parse_value_true)
  have tg: "(case map_option parse_value (field_text fm ''tags'') of Some (JArr ts) \<Rightarrow> ts | _ \<Rightarrow> [])
              = (case field_text fm ''tags'' of
                   None \<Rightarrow> []
                 | Some v \<Rightarrow> if bracketed v then list_items v else [])"
  proof (cases "field_text fm ''tags''")
    case None
    then show ?thesis by simp
  next
    case (Some v)
    show ?thesis
    proof (cases "bracketed v")
      case True
      then have "parse_value v = JArr (list_items v)" by (simp add: parse_value_list)
      with Some True show ?thesis by simp
    next
      case False
      then have "\<And>ts. parse_value v \<noteq> JArr ts" by (simp add: parse_value_list)
      then have "(case parse_value v of JArr ts \<Rightarrow> ts | _ \<Rightarrow> []) = []"
        by (cases "parse_value v") auto
      with Some False show ?thesis by simp
    qed
  qed
  show ?thesis
    using assms pin tg
    by (simp add: m_parseNote_def Let_def parse_frontmatter_lookup)
qed

lemma m_parseNote_Some:
  assumes "frontmatter_match c = Some (fm, body)"
  shows "\<exists>n. m_parseNote now1 now2 c filename = Some n \<and> p_content n = trim body \<and>
           (field_text fm ''id'' \<in> {None, Some [], Some ''false''} \<longrightarrow>
              p_id n = JStr (replace_first ''.md'' filename)) \<and>
           (field_text fm ''title'' \<in> {None, Some [], Some ''false''} \<longrightarrow>
              p_title n = JStr ''Untitled'') \<and>
           (field_text fm ''created'' \<in> {None, Some [], Some ''false''} \<longrightarrow>
              p_created n = JStr now1) \<and>
           (field_text fm ''updated'' \<in> {None, Some [], Some ''false''} \<longrightarrow>
              p_updated n = JStr now2) \<and>
           (field_text fm ''color'' \<in> {None, Some [], Some ''false''} \<longrightarrow>
              p_color n = JStr ''#FFE066'') \<and>
           (\<forall>v. v \<noteq> [] \<and> v \<noteq> ''false'' \<longrightarrow>
              (field_text fm ''id'' = Some v \<longrightarrow> p_id n = parse_value v) \<and>
              (field_text fm ''title'' = Some v \<longrightarrow> p_title n = parse_value v) \<and>
              (field_text fm ''created'' = Some v \<longrightarrow> p_created n = parse_value v) \<and>
              (field_text fm ''updated'' = Some v \<longrightarrow> p_updated n = parse_value v) \<and>
              (field_text fm ''color'' = Some v \<longrightarrow> p_color n = parse_value v)) \<and>
           (p_pinned n \<longleftrightarrow> field_text fm ''pinned'' = Some ''true'') \<and>
           (\<forall>v. field_text fm ''tags'' = Some v \<and> bracketed v \<longrightarrow> p_tags n = list_items v) \<and>
           (\<not> (\<exists>v. field_text fm ''tags'' = Some v \<and> bracketed v) \<longrightarrow> p_tags n = [])"
  unfolding m_parseNote_fields[OF assms] js_or_field
  by (auto split: option.splits)

lemma parseNote_raises:
  "matter c = Inl e \<Longrightarrow> parseNote matter clock uuidv4 c = Inl e"
  by (simp add: parseNote_def)

lemma parseNote_null:
  "matter c = Inr (YNull, body) \<Longrightarrow> parseNote matter clock uuidv4 c = Inl TypeError"
  by (simp add: parseNote_def)

lemma or_default_falsy: "\<not> truthy_opt v \<Longrightarrow> or_default v d = d"
  by (simp add: or_default_def truthy_opt_def split: option.splits)

lemma or_default_value: "truthy v \<Longrightarrow> or_default (Some v) d = v"
  by (simp add: or_default_def)

lemma parseNote_returns:
  assumes "matter c = Inr (data, body)" "data \<noteq> YNull"
  shows "\<exists>r. parseNote matter clock uuidv4 c = Inr r \<and> raw_content r = trim body \<and>
           (\<not> truthy_opt (prop_of data ''id'') \<longrightarrow> raw_id r = YStr (uuidv4 0)) \<and>
           (\<not> truthy_opt (prop_of data ''title'') \<longrightarrow> raw_title r = YStr DEFAULT_title) \<and>
           (\<not> truthy_opt (prop_of data ''color'') \<longrightarrow> raw_color r = YStr DEFAULT_color) \<and>
           (\<not> truthy_opt (prop_of data ''created'') \<longrightarrow> raw_created r = YStr (clock 0)) \<and>
           (\<not> truthy_opt (prop_of data ''updated'') \<longrightarrow> raw_updated r = YStr (clock 0)) \<and>
           (\<forall>v. truthy v \<longrightarrow>
              (prop_of data ''id'' = Some v \<longrightarrow> raw_id r = v) \<and>
              (prop_of data ''title'' = Some v \<longrightarrow> raw_title r = v) \<and>
              (prop_of data ''color'' = Some v \<longrightarrow> raw_color r = v) \<and>
              (prop_of data ''created'' = Some v \<longrightarrow> raw_created r = v) \<and>
              (prop_of data ''updated'' = Some v \<longrightarrow> raw_updated r = v)) \<and>
           (raw_pinned r \<longleftrightarrow> truthy_opt (prop_of data ''pinned'')) \<and>
           (raw_encrypted r \<longleftrightarrow> truthy_opt (prop_of data ''encrypted'')) \<and>
           (\<forall>ts. prop_of data ''tags'' = Some (YSeq ts) \<longrightarrow> raw_tags r = ts) \<and>
           (\<not> (\<exists>ts. prop_of data ''tags'' = Some (YSeq ts)) \<longrightarrow> raw_tags r = []) \<and>
           (\<forall>rs. prop_of data ''reminders'' = Some (YSeq rs) \<longrightarrow>
              length (raw_reminders r) = length (filter is_object rs)) \<and>
           (\<not> (\<exists>rs. prop_of data ''reminders'' = Some (YSeq rs)) \<longrightarrow> raw_reminders r = [])"
proof -
  let ?r = "\<lparr>raw_id = or_default (prop_of data ''id'') (YStr (uuidv4 0)),
             raw_title = or_default (prop_of data ''title'') (YStr DEFAULT_title),
             raw_color = or_default (prop_of data ''color'') (YStr DEFAULT_color),
             raw_pinned = truthy_opt (prop_of data ''pinned''),
             raw_created = or_default (prop_of data ''created'') (YStr (clock 0)),
             raw_updated = or_default (prop_of data ''updated'') (YStr (clock 0)),
             raw_reminders = parseReminders clock uuidv4 (prop_of data ''reminders''),
             raw_tags = (case prop_of data ''tags'' of Some (YSeq ts) \<Rightarrow> ts | _ \<Rightarrow> []),
             raw_encrypted = truthy_opt (prop_of data ''encrypted''),
             raw_content = trim body\<rparr>"
  have p: "parseNote matter clock uuidv4 c = Inr ?r"
    using assms by (simp add: parseNote_def Let_def)
  have t: "\<not> (\<exists>ts. prop_of data ''tags'' = Some (YSeq ts)) \<longrightarrow>
             (case prop_of data ''tags'' of Some (YSeq ts) \<Rightarrow> ts | _ \<Rightarrow> []) = []"
    by (auto split: option.splits yaml.splits)
  have m: "\<not> (\<exists>rs. prop_of data ''reminders'' = Some (YSeq rs)) \<longrightarrow>
             parseReminders clock uuidv4 (prop_of data ''reminders'') = []"
    by (auto simp: parseReminders_def split: option.splits yaml.splits)
  have l: "\<forall>rs. prop_of data ''reminders'' = Some (YSeq rs) \<longrightarrow>
             length (parseReminders clock uuidv4 (prop_of data ''reminders'')) = length (filter is_object rs)"
    by (simp add: parseReminders_def)
  show ?thesis
    unfolding p using t m l
    by (simp add: or_default_falsy or_default_value)
qed

text \<open>
  Claim C5, as the code has it. The parser of the sync service returns no note exactly when
  the text has no metadata block (it does not start with a separator line followed, later, by
  a second one); otherwise it returns a note, never raises, and the note is read from the
  block line by line: id, title, creation time, update time and color take their default
  (the id the file name without \<open>.md\<close>, the times the clock) when the block has no line for
  the key or the line's text is empty or \<open>false\<close>, and the value of the line otherwise;
  pinned is true exactly when the line's text is \<open>true\<close>; the tags are the items of a
  bracketed list and empty otherwise. The parser of the core library has no such result: a
  throw of the front-matter library passes through, data that is \<open>null\<close> makes the parser
  throw, and on any other data it returns a note: id, title, color and the two times take
  their default when the property is missing or falsy and its value otherwise, pinned and
  encrypted are the truthiness of the property, tags are the property when it is an array
  and empty otherwise, and there is one reminder per object of the array of reminders, none
  when the property is no array.
\<close>

theorem parse_defaults_and_no_note:
  "(m_parseNote now1 now2 c filename = None \<longleftrightarrow>
      \<not> (\<exists>fm body. c = ''---\<newline>'' @ fm @ ''\<newline>---\<newline>'' @ body)) \<and>
   (\<forall>fm body. frontmatter_match c = Some (fm, body) \<longrightarrow>
      (\<exists>n. m_parseNote now1 now2 c filename = Some n \<and> p_content n = trim body \<and>
           (field_text fm ''id'' \<in> {None, Some [], Some ''false''} \<longrightarrow>
              p_id n = JStr (replace_first ''.md'' filename)) \<and>
           (field_text fm ''title'' \<in> {None, Some [], Some ''false''} \<longrightarrow>
              p_title n = JStr ''Untitled'') \<and>
           (field_text fm ''created'' \<in> {None, Some [], Some ''false''} \<longrightarrow>
              p_created n = JStr now1) \<and>
           (field_text fm ''updated'' \<in> {None, Some [], Some ''false''} \<longrightarrow>
              p_updated n = JStr now2) \<and>
           (field_text fm ''color'' \<in> {None, Some [], Some ''false''} \<longrightarrow>
              p_color n = JStr ''#FFE066'') \<and>
           (\<forall>v. v \<noteq> [] \<and> v \<noteq> ''false'' \<longrightarrow>
              (field_text fm ''id'' = Some v \<longrightarrow> p_id n = parse_value v) \<and>
              (field_text fm ''title'' = Some v \<longrightarrow> p_title n = parse_value v) \<and>
              (field_text fm ''created'' = Some v \<longrightarrow> p_created n = parse_value v) \<and>
              (field_text fm ''updated'' = Some v \<longrightarrow> p_updated n = parse_value v) \<and>
              (field_text fm ''color'' = Some v \<longrightarrow> p_color n = parse_value v)) \<and>
           (p_pinned n \<longleftrightarrow> field_text fm ''pinned'' = Some ''true'') \<and>
           (\<forall>v. field_text fm ''tags'' = Some v \<and> bracketed v \<longrightarrow> p_tags n = list_items v) \<and>
           (\<not> (\<exists>v. field_text fm ''tags'' = Some v \<and> bracketed v) \<longrightarrow> p_tags n = []))) \<and>
   (\<forall>k fm. has_key fm k \<longleftrightarrow> field_text fm k \<noteq> None) \<and>
   (\<forall>e. matter c = Inl e \<longrightarrow> parseNote matter clock uuidv4 c = Inl e) \<and>
   (\<forall>body. matter c = Inr (YNull, body) \<longrightarrow> parseNote matter clock uuidv4 c = Inl TypeError) \<and>
   (\<forall>data body. matter c = Inr (data, body) \<and> data \<noteq> YNull \<longrightarrow>
      (\<exists>r. parseNote matter clock uuidv4 c = Inr r \<and> raw_content r = trim body \<and>
           (\<not> truthy_opt (prop_of data ''id'') \<longrightarrow> raw_id r = YStr (uuidv4 0)) \<and>
           (\<not> truthy_opt (prop_of data ''title'') \<longrightarrow> raw_title r = YStr DEFAULT_title) \<and>
           (\<not> truthy_opt (prop_of data ''color'') \<longrightarrow> raw_color r = YStr DEFAULT_color) \<and>
           (\<not> truthy_opt (prop_of data ''created'') \<longrightarrow> raw_created r = YStr (clock 0)) \<and>
           (\<not> truthy_opt (prop_of data ''updated'') \<longrightarrow> raw_updated r = YStr (clock 0)) \<and>
           (\<forall>v. truthy v \<longrightarrow>
              (prop_of data ''id'' = Some v \<longrightarrow> raw_id r = v) \<and>
              (prop_of data ''title'' = Some v \<longrightarrow> raw_title r = v) \<and>
              (prop_of data ''color'' = Some v \<longrightarrow> raw_color r = v) \<and>
              (prop_of data ''created'' = Some v \<longrightarrow> raw_created r = v) \<and>
              (prop_of data ''updated'' = Some v \<longrightarrow> raw_updated r = v)) \<and>
           (raw_pinned r \<longleftrightarrow> truthy_opt (prop_of data ''pinned'')) \<and>
           (raw_encrypted r \<longleftrightarrow> truthy_opt (prop_of data ''encrypted'')) \<and>
           (\<forall>ts. prop_of data ''tags'' = Some (YSeq ts) \<longrightarrow> raw_tags r = ts) \<and>
           (\<not> (\<exists>ts. prop_of data ''tags'' = Some (YSeq ts)) \<longrightarrow> raw_tags r = []) \<and>
           (\<forall>rs. prop_of data ''reminders'' = Some (YSeq rs) \<longrightarrow>
              length (raw_reminders r) = length (filter is_object rs)) \<and>
           (\<not> (\<exists>rs. prop_of data ''reminders'' = Some (YSeq rs)) \<longrightarrow> raw_reminders r = [])))"
proof -
  have a: "m_parseNote now1 now2 c filename = None \<longleftrightarrow>
      \<not> (\<exists>fm body. c = ''---\<newline>'' @ fm @ ''\<newline>---\<newline>'' @ body)"
    unfolding frontmatter_match_None_iff[symmetric]
    by (auto simp: m_parseNote_def Let_def split: option.splits)
  have b: "\<forall>k fm. has_key fm k \<longleftrightarrow> field_text fm k \<noteq> None"
    using has_key_field_text by blast
  have d: "\<forall>e. matter c = Inl e \<longrightarrow> parseNote matter clock uuidv4 c = Inl e"
    using parseNote_raises by blast
  have e: "\<forall>body. matter c = Inr (YNull, body) \<longrightarrow> parseNote matter clock uuidv4 c = Inl TypeError"
    using parseNote_null by blast
  show ?thesis
    apply (intro conjI)
         apply (rule a)
        apply (intro allI impI)
        apply (erule m_parseNote_Some)
       apply (rule b)
      apply (rule d)
     apply (rule e)
    apply (intro allI impI)
    apply (erule conjE)
    apply (erule (1) parseNote_returns)
    done
qed

text \<open>The theorem on a block with a title and a pinned flag that is not \<open>true\<close>, and on a
  text without a block.\<close>

theorem parse_defaults_and_no_note_witness:
  "frontmatter_match ''---\<newline>title: Shopping\<newline>pinned: yes\<newline>---\<newline>milk\<newline>''
     = Some (''title: Shopping\<newline>pinned: yes'', ''milk\<newline>'') \<and>
   field_text ''title: Shopping\<newline>pinned: yes'' ''id'' = None \<and>
   field_text ''title: Shopping\<newline>pinned: yes'' ''pinned'' = Some ''yes'' \<and>
   m_parseNote ''2024-03-01T10:00:00.000Z'' ''2024-03-01T10:00:00.001Z''
     ''---\<newline>title: Shopping\<newline>pinned: yes\<newline>---\<newline>milk\<newline>'' ''abc.md''
     = Some \<lparr>p_id = JStr ''abc'', p_title = JStr ''Shopping'', p_content = ''milk'',
             p_created = JStr ''2024-03-01T10:00:00.000Z'',
             p_updated = JStr ''2024-03-01T10:00:00.001Z'',
             p_pinned = False, p_color = JStr ''#FFE066'', p_tags = []\<rparr> \<and>
   m_parseNote ''2024-03-01T10:00:00.000Z'' ''2024-03-01T10:00:00.001Z'' ''milk'' ''abc.md'' = None \<and>
   no_front_matter ''milk'' = Inr (YMap [], ''milk'') \<and>
   (\<exists>r. parseNote no_front_matter ex_clock ex_uuidv4 ''milk'' = Inr r \<and> raw_content r = ''milk'' \<and>
        raw_title r = YStr DEFAULT_title)"
proof -
  have f: "frontmatter_match ''---\<newline>title: Shopping\<newline>pinned: yes\<newline>---\<newline>milk\<newline>''
     = Some (''title: Shopping\<newline>pinned: yes'', ''milk\<newline>'')" by code_simp
  have h: "field_text ''title: Shopping\<newline>pinned: yes'' ''id'' = None"
    "field_text ''title: Shopping\<newline>pinned: yes'' ''pinned'' = Some ''yes''"
    by code_simp+
  have p: "m_parseNote ''2024-03-01T10:00:00.000Z'' ''2024-03-01T10:00:00.001Z''
     ''---\<newline>title: Shopping\<newline>pinned: yes\<newline>---\<newline>milk\<newline>'' ''abc.md''
     = Some \<lparr>p_id = JStr ''abc'', p_title = JStr ''Shopping'', p_content = ''milk'',
             p_created = JStr ''2024-03-01T10:00:00.000Z'',
             p_updated = JStr ''2024-03-01T10:00:00.001Z'',
             p_pinned = False, p_color = JStr ''#FFE066'', p_tags = []\<rparr>" by code_simp
  have n: "m_parseNote ''2024-03-01T10:00:00.000Z'' ''2024-03-01T10:00:00.001Z'' ''milk'' ''abc.md'' = None"
    by code_simp
  have t: "trim ''milk'' = ''milk''" by code_simp
  have m: "no_front_matter ''milk'' = Inr (YMap [], ''milk'') \<and> YMap [] \<noteq> YNull"
    by (simp add: no_front_matter_def)
  have u: "\<not> truthy_opt (prop_of (YMap []) ''title'')" by (simp add: truthy_opt_def)
  have "\<exists>r. parseNote no_front_matter ex_clock ex_uuidv4 ''milk'' = Inr r \<and> raw_content r = ''milk'' \<and>
        raw_title r = YStr DEFAULT_title"
    using parse_defaults_and_no_note[of _ _ "''milk''" _ no_front_matter ex_clock ex_uuidv4] m t u
    by metis
  with f h p n m show ?thesis by simp
qed

text \<open>Claim C5 as stated fails for the core parser: on a text without a metadata block it
  returns a note made of the defaults, with the text as content, not "no note".\<close>

theorem parseNote_never_no_note_counterexample:
  "\<not> (\<exists>fm body. ''milk'' = ''---\<newline>'' @ fm @ ''\<newline>---\<newline>'' @ body) \<and>
   parseNote no_front_matter ex_clock ex_uuidv4 ''milk'' =
     Inr \<lparr>raw_id = YStr ''123e4567-e89b-12d3-a456-426614174000'', raw_title = YStr ''Untitled Note'',
          raw_color = YStr ''#FFE066'', raw_pinned = False,
          raw_created = YStr ''2024-03-01T10:00:00.000Z'',
          raw_updated = YStr ''2024-03-01T10:00:00.000Z'', raw_reminders = [], raw_tags = [],
          raw_encrypted = False, raw_content = ''milk''\<rparr>"
proof -
  have "trim ''milk'' = ''milk''" by code_simp
  then show ?thesis
    by (simp add: parseNote_def no_front_matter_def ex_clock_def ex_uuidv4_def or_default_def
        truthy_opt_def parseReminders_def DEFAULT_title_def DEFAULT_color_def Let_def)
qed
















section \<open>Mobile sync service: the loops of a pass\<close>

lemma keyed_update: "keyed m \<Longrightarrow> keyed (AList.update (m_id v) v m)"
  unfolding keyed_def by (induction m) (auto split: if_splits)

lemma keyed_delete: "keyed m \<Longrightarrow> keyed (AList.delete k m)"
  unfolding keyed_def by (auto simp: AList.delete_eq)

lemma keyed_fold_update: "keyed m \<Longrightarrow> keyed (fold (\<lambda>n m. AList.update (m_id n) n m) ns m)"
  by (induction ns arbitrary: m) (auto simp: keyed_update)

lemma keyed_map_of_notes: "keyed (map_of_notes ns)"
  unfolding map_of_notes_def by (rule keyed_fold_update) (simp add: keyed_def)

lemma keyed_lookup: "keyed m \<Longrightarrow> map_of m k = Some v \<Longrightarrow> m_id v = k"
  unfolding keyed_def by (auto dest!: map_of_SomeD)

lemma keyed_mem: "keyed m \<Longrightarrow> v \<in> snd ` set m \<Longrightarrow> m_id v \<in> fst ` set m"
  unfolding keyed_def by force

lemma map_of_fold_update_distinct:
  "distinct (map m_id ns) \<Longrightarrow> n \<in> set ns \<Longrightarrow>
   map_of (fold (\<lambda>n m. AList.update (m_id n) n m) ns m) (m_id n) = Some n"
proof (induction ns arbitrary: m)
  case Nil
  then show ?case by simp
next
  case (Cons a ns)
  show ?case
  proof (cases "n \<in> set ns")
    case True
    with Cons show ?thesis by simp
  next
    case False
    with Cons.prems have na: "n = a" and notin: "m_id a \<notin> m_id ` set ns" by auto
    have keep: "\<And>m. m_id a \<notin> m_id ` set ns \<Longrightarrow>
        map_of (fold (\<lambda>n m. AList.update (m_id n) n m) ns m) (m_id a) = map_of m (m_id a)"
    proof (induction ns)
      case Nil
      then show ?case by simp
    next
      case (Cons b bs)
      then show ?case by (simp add: update_conv')
    qed
    show ?thesis using keep[OF notin] na by (simp add: update_conv')
  qed
qed

lemma map_of_notes_lookup:
  "distinct (map m_id ns) \<Longrightarrow> n \<in> set ns \<Longrightarrow> map_of (map_of_notes ns) (m_id n) = Some n"
  unfolding map_of_notes_def by (rule map_of_fold_update_distinct)

lemma m_id_keep_widget: "m_id (keep_widget l p) = m_id p"
  by (simp add: keep_widget_def split: option.splits)


lemma download_step_skip:
  "\<not> (is_md_file e \<and> shouldDownload env e (map_of (notesMap st) (entry_noteId e))) \<Longrightarrow>
   download_step env e st = Inr st"
  by (auto simp: download_step_def Let_def)

lemma download_step_fetch:
  assumes "is_md_file e" "shouldDownload env e (map_of (notesMap st) (entry_noteId e))"
  shows "download_step env e st =
     (case download env (path_lower e) of
        DlThrow msg \<Rightarrow> Inl (msg, st\<lparr>calls := calls st @ [Download (path_lower e)]\<rparr>)
      | DlNotOk \<Rightarrow> Inr (st\<lparr>calls := calls st @ [Download (path_lower e)]\<rparr>)
      | DlOk body \<Rightarrow>
          (case parse env body (entry_name e) of
             None \<Rightarrow> Inr (st\<lparr>calls := calls st @ [Download (path_lower e)]\<rparr>)
           | Some p0 \<Rightarrow>
               Inr (st\<lparr>calls := calls st @ [Download (path_lower e)],
                       notesMap := AList.update (m_id p0)
                          (keep_widget (map_of (notesMap st) (entry_noteId e)) p0) (notesMap st),
                       syncedCount := Suc (syncedCount st)\<rparr>)))"
  using assms
  by (simp add: download_step_def Let_def m_id_keep_widget split: download_result.splits option.splits)

lemma download_step_calls:
  assumes "download_step env e st = Inr s"
  shows "calls s = calls st \<or> (is_md_file e \<and> calls s = calls st @ [Download (path_lower e)])"
proof (cases "is_md_file e \<and> shouldDownload env e (map_of (notesMap st) (entry_noteId e))")
  case False
  with assms download_step_skip[OF False] show ?thesis by simp
next
  case True
  then show ?thesis
    using assms download_step_fetch[of e env st]
    by (auto split: download_result.splits option.splits)
qed

lemma download_step_keyed:
  assumes "keyed (notesMap st)" "download_step env e st = Inr s"
  shows "keyed (notesMap s)"
proof (cases "is_md_file e \<and> shouldDownload env e (map_of (notesMap st) (entry_noteId e))")
  case False
  with assms download_step_skip[OF False] show ?thesis by simp
next
  case True
  have "\<And>p0 l. keyed (AList.update (m_id p0) (keep_widget l p0) (notesMap st))"
    using keyed_update[OF assms(1), of "keep_widget _ _"] by (simp add: m_id_keep_widget)
  then show ?thesis
    using True assms download_step_fetch[of e env st]
    by (auto split: download_result.splits option.splits)
qed

lemma download_step_untouched:
  assumes "is_md_file e \<longrightarrow> entry_noteId e \<noteq> k \<and>
             (\<forall>body p. download env (path_lower e) = DlOk body \<and> parse env body (entry_name e) = Some p
                \<longrightarrow> m_id p = entry_noteId e)"
    and "download_step env e st = Inr s"
  shows "map_of (notesMap s) k = map_of (notesMap st) k"
proof (cases "is_md_file e \<and> shouldDownload env e (map_of (notesMap st) (entry_noteId e))")
  case False
  with assms download_step_skip[OF False] show ?thesis by simp
next
  case True
  with assms(1) have ne: "entry_noteId e \<noteq> k"
    and idm: "\<And>body p. download env (path_lower e) = DlOk body \<Longrightarrow> parse env body (entry_name e) = Some p
                \<Longrightarrow> m_id p = entry_noteId e" by auto
  show ?thesis
    using True assms(2) download_step_fetch[of e env st] ne idm
    by (auto simp: update_conv' split: download_result.splits option.splits)
qed

lemma download_loop_append:
  "download_loop env (es1 @ es2) st =
     (case download_loop env es1 st of Inl x \<Rightarrow> Inl x | Inr s \<Rightarrow> download_loop env es2 s)"
  by (induction es1 arbitrary: st) (auto split: sum.splits)

lemma download_loop_keyed:
  "keyed (notesMap st) \<Longrightarrow> download_loop env es st = Inr s \<Longrightarrow> keyed (notesMap s)"
proof (induction es arbitrary: st)
  case Nil
  then show ?case by simp
next
  case (Cons e es)
  from Cons.prems(2) obtain s1 where s1: "download_step env e st = Inr s1"
    and r: "download_loop env es s1 = Inr s" by (auto split: sum.splits)
  from download_step_keyed[OF Cons.prems(1) s1] have "keyed (notesMap s1)" .
  from Cons.IH[OF this r] show ?case .
qed

lemma download_loop_untouched:
  assumes "\<forall>e \<in> set es. is_md_file e \<longrightarrow> entry_noteId e \<noteq> k \<and>
             (\<forall>body p. download env (path_lower e) = DlOk body \<and> parse env body (entry_name e) = Some p
                \<longrightarrow> m_id p = entry_noteId e)"
    and "download_loop env es st = Inr s"
  shows "map_of (notesMap s) k = map_of (notesMap st) k"
  using assms
proof (induction es arbitrary: st)
  case Nil
  then show ?case by simp
next
  case (Cons e es)
  from Cons.prems(2) obtain s1 where s1: "download_step env e st = Inr s1"
    and r: "download_loop env es s1 = Inr s" by (auto split: sum.splits)
  have "map_of (notesMap s1) k = map_of (notesMap st) k"
    using Cons.prems(1) s1 by (intro download_step_untouched[of e k env st s1]) auto
  moreover have "map_of (notesMap s) k = map_of (notesMap s1) k"
    using Cons.prems(1) r by (intro Cons.IH) auto
  ultimately show ?case by simp
qed

lemma download_loop_calls:
  assumes "download_loop env es st = Inr s"
  shows "\<exists>xs. calls s = calls st @ xs \<and>
           (\<forall>c \<in> set xs. \<exists>e \<in> set es. is_md_file e \<and> c = Download (path_lower e))"
  using assms
proof (induction es arbitrary: st)
  case Nil
  then show ?case by simp
next
  case (Cons e es)
  from Cons.prems obtain s1 where s1: "download_step env e st = Inr s1"
    and r: "download_loop env es s1 = Inr s" by (auto split: sum.splits)
  from Cons.IH[OF r] obtain xs where xs: "calls s = calls s1 @ xs"
      "\<forall>c \<in> set xs. \<exists>e \<in> set es. is_md_file e \<and> c = Download (path_lower e)" by blast
  from download_step_calls[OF s1] show ?case
  proof
    assume "calls s1 = calls st"
    with xs show ?thesis by auto
  next
    assume a: "is_md_file e \<and> calls s1 = calls st @ [Download (path_lower e)]"
    then have "calls s = calls st @ (Download (path_lower e) # xs)" using xs(1) by simp
    moreover have "\<forall>c \<in> set (Download (path_lower e) # xs).
        \<exists>e' \<in> set (e # es). is_md_file e' \<and> c = Download (path_lower e')"
      using xs(2) a by auto
    ultimately show ?thesis by blast
  qed
qed



lemma deletion_step_eq:
  "deletion_step env es l st =
     (if m_id l \<notin> set (remote_ids es) \<and> is_old env l
      then st\<lparr>notesMap := AList.delete (m_id l) (notesMap st), syncedCount := Suc (syncedCount st)\<rparr>
      else st)"
  by (simp add: deletion_step_def is_old_def split: option.splits)

lemma fold_deletion_calls: "calls (fold (deletion_step env es) ls st) = calls st"
  by (induction ls arbitrary: st) (simp_all add: deletion_step_eq)

lemma fold_deletion_keyed: "keyed (notesMap st) \<Longrightarrow> keyed (notesMap (fold (deletion_step env es) ls st))"
  by (induction ls arbitrary: st) (simp_all add: deletion_step_eq keyed_delete)

lemma fold_deletion_absent:
  "k \<notin> fst ` set (notesMap st) \<Longrightarrow> k \<notin> fst ` set (notesMap (fold (deletion_step env es) ls st))"
proof (induction ls arbitrary: st)
  case Nil
  then show ?case by simp
next
  case (Cons l ls)
  have "k \<notin> fst ` set (notesMap (deletion_step env es l st))"
    using Cons.prems dom_delete_subset[of "m_id l" "notesMap st"]
    by (auto simp: deletion_step_eq)
  from Cons.IH[OF this] show ?case by simp
qed

lemma fold_deletion_removes:
  assumes "n \<in> set ls" "m_id n \<notin> set (remote_ids es)" "is_old env n"
  shows "m_id n \<notin> fst ` set (notesMap (fold (deletion_step env es) ls st))"
  using assms(1)
proof (induction ls arbitrary: st)
  case Nil
  then show ?case by simp
next
  case (Cons l ls)
  show ?case
  proof (cases "l = n")
    case True
    have "m_id n \<notin> fst ` set (notesMap (deletion_step env es n st))"
      using assms(2,3) delete_notin_dom[of "m_id n" "notesMap st"] by (simp add: deletion_step_eq)
    from fold_deletion_absent[OF this] show ?thesis using True by simp
  next
    case False
    with Cons.prems have "n \<in> set ls" by simp
    from Cons.IH[OF this] show ?thesis by simp
  qed
qed

lemma fold_deletion_untouched:
  assumes "\<forall>l \<in> set ls. \<not> (m_id l = k \<and> k \<notin> set (remote_ids es) \<and> is_old env l)"
  shows "map_of (notesMap (fold (deletion_step env es) ls st)) k = map_of (notesMap st) k"
  using assms
proof (induction ls arbitrary: st)
  case Nil
  then show ?case by simp
next
  case (Cons l ls)
  have "map_of (notesMap (deletion_step env es l st)) k = map_of (notesMap st) k"
    using Cons.prems by (auto simp: deletion_step_eq delete_conv')
  moreover have "map_of (notesMap (fold (deletion_step env es) ls (deletion_step env es l st))) k
      = map_of (notesMap (deletion_step env es l st)) k"
    using Cons.prems by (intro Cons.IH) simp
  ultimately show ?case by simp
qed


lemma upload_step_Inr:
  assumes "upload_step env es n st = Inr s"
  shows "notesMap s = notesMap st \<and>
         calls s = calls st @ (if shouldUpload env es n then [Upload (note_path (m_id n)) (m_serializeNote n)] else [])"
  using assms
  by (auto simp: upload_step_def Let_def split: if_splits upload_result.splits)

lemma upload_loop_Inr:
  assumes "upload_loop env es ns st = Inr s"
  shows "notesMap s = notesMap st \<and>
         calls s = calls st @ map (\<lambda>n. Upload (note_path (m_id n)) (m_serializeNote n))
                              (filter (shouldUpload env es) ns)"
  using assms
proof (induction ns arbitrary: st)
  case Nil
  then show ?case by simp
next
  case (Cons n ns)
  from Cons.prems obtain s1 where s1: "upload_step env es n st = Inr s1"
    and r: "upload_loop env es ns s1 = Inr s" by (auto split: sum.splits)
  from upload_step_Inr[OF s1] Cons.IH[OF r] show ?case by auto
qed

lemma note_path_inj: "note_path a = note_path b \<Longrightarrow> a = b"
  by (simp add: note_path_def)


lemma sync_completed:
  assumes "authenticated env" "list_folder env = ListOk es"
    and "res_error (syncWithRemote env ls) = None"
  obtains st1 st3 where
    "download_loop env es (start_state ls) = Inr st1"
    "upload_loop env es (map snd (notesMap (fold (deletion_step env es) ls st1)))
       (fold (deletion_step env es) ls st1) = Inr st3"
    "res_notes (syncWithRemote env ls) = map snd (notesMap st3)"
    "res_calls (syncWithRemote env ls) = calls st3"
proof -
  from assms(1) obtain tk where t: "token env = Some tk" "tk \<noteq> []"
    by (auto simp: authenticated_def)
  show ?thesis
  proof (cases "download_loop env es (start_state ls)")
    case (Inl x)
    with assms(2,3) t show ?thesis
      by (cases x) (simp add: syncWithRemote_def start_state_def failed_result_def Let_def)
  next
    case (Inr st1)
    show ?thesis
    proof (cases "upload_loop env es (map snd (notesMap (fold (deletion_step env es) ls st1)))
       (fold (deletion_step env es) ls st1)")
      case (Inl x)
      with Inr assms(2,3) t show ?thesis
        by (cases x) (simp add: syncWithRemote_def start_state_def failed_result_def Let_def)
    next
      case st3: (Inr st3)
      with Inr assms(2) t have
        "res_notes (syncWithRemote env ls) = map snd (notesMap st3)"
        "res_calls (syncWithRemote env ls) = calls st3"
        by (simp_all add: syncWithRemote_def start_state_def Let_def)
      with Inr st3 that show ?thesis by blast
    qed
  qed
qed

lemma wf_map_update: "wf_map m \<Longrightarrow> wf_map (AList.update (m_id v) v m)"
  by (simp add: wf_map_def keyed_update distinct_update)

lemma wf_map_delete: "wf_map m \<Longrightarrow> wf_map (AList.delete k m)"
  by (simp add: wf_map_def keyed_delete distinct_delete)

lemma wf_map_fold_update:
  "wf_map m \<Longrightarrow> wf_map (fold (\<lambda>n m. AList.update (m_id n) n m) ns m)"
proof (induction ns arbitrary: m)
  case Nil
  then show ?case by simp
next
  case (Cons a ns)
  from Cons.prems have "wf_map (AList.update (m_id a) a m)" by (rule wf_map_update)
  from Cons.IH[OF this] show ?case by simp
qed

lemma wf_map_of_notes: "wf_map (map_of_notes ns)"
  unfolding map_of_notes_def by (rule wf_map_fold_update) (simp add: wf_map_def keyed_def)

lemma wf_map_unique:
  assumes "wf_map m" "map_of m k = Some v" "x \<in> snd ` set m" "m_id x = k"
  shows "x = v"
proof -
  from assms(3) obtain k' where kx: "(k', x) \<in> set m" by force
  with assms(1,4) have "k' = k" by (auto simp: wf_map_def keyed_def)
  with kx assms(1) have "map_of m k = Some x" by (simp add: wf_map_def)
  with assms(2) show ?thesis by simp
qed

lemma wf_map_value: "map_of m k = Some v \<Longrightarrow> v \<in> snd ` set m"
  by (force dest: map_of_SomeD)

lemma download_step_wf:
  assumes "wf_map (notesMap st)" "download_step env e st = Inr s"
  shows "wf_map (notesMap s)"
proof (cases "is_md_file e \<and> shouldDownload env e (map_of (notesMap st) (entry_noteId e))")
  case False
  with assms download_step_skip[OF False] show ?thesis by simp
next
  case True
  have "\<And>p0 l. wf_map (AList.update (m_id p0) (keep_widget l p0) (notesMap st))"
    using wf_map_update[OF assms(1), of "keep_widget _ _"] by (simp add: m_id_keep_widget)
  then show ?thesis
    using True assms download_step_fetch[of e env st]
    by (auto split: download_result.splits option.splits)
qed

lemma download_loop_wf:
  "wf_map (notesMap st) \<Longrightarrow> download_loop env es st = Inr s \<Longrightarrow> wf_map (notesMap s)"
proof (induction es arbitrary: st)
  case Nil
  then show ?case by simp
next
  case (Cons e es)
  from Cons.prems(2) obtain s1 where s1: "download_step env e st = Inr s1"
    and r: "download_loop env es s1 = Inr s" by (auto split: sum.splits)
  from download_step_wf[OF Cons.prems(1) s1] have "wf_map (notesMap s1)" .
  from Cons.IH[OF this r] show ?case .
qed

lemma fold_deletion_wf: "wf_map (notesMap st) \<Longrightarrow> wf_map (notesMap (fold (deletion_step env es) ls st))"
  by (induction ls arbitrary: st) (simp_all add: deletion_step_eq wf_map_delete)

lemma start_state_simps:
  "notesMap (start_state ls) = map_of_notes ls"
  "calls (start_state ls) = [CreateFolder, ListFolder]"
  by (simp_all add: start_state_def)

text \<open>What a completed pass did, in one statement.\<close>

lemma sync_completed_facts:
  assumes "authenticated env" "list_folder env = ListOk es"
    and "res_error (syncWithRemote env ls) = None"
  obtains st1 st2 dls where
    "download_loop env es (start_state ls) = Inr st1"
    "st2 = fold (deletion_step env es) ls st1"
    "wf_map (notesMap st1)" "wf_map (notesMap st2)"
    "calls st1 = [CreateFolder, ListFolder] @ dls"
    "\<forall>c \<in> set dls. \<exists>e \<in> set es. is_md_file e \<and> c = Download (path_lower e)"
    "res_notes (syncWithRemote env ls) = map snd (notesMap st2)"
    "res_calls (syncWithRemote env ls) =
       [CreateFolder, ListFolder] @ dls @
       map (\<lambda>n. Upload (note_path (m_id n)) (m_serializeNote n))
         (filter (shouldUpload env es) (map snd (notesMap st2)))"
proof -
  from assms obtain st1 st3 where
    d: "download_loop env es (start_state ls) = Inr st1"
    and u: "upload_loop env es (map snd (notesMap (fold (deletion_step env es) ls st1)))
       (fold (deletion_step env es) ls st1) = Inr st3"
    and rn: "res_notes (syncWithRemote env ls) = map snd (notesMap st3)"
    and rc: "res_calls (syncWithRemote env ls) = calls st3" by (rule sync_completed)
  define st2 where "st2 = fold (deletion_step env es) ls st1"
  have w1: "wf_map (notesMap st1)"
    using download_loop_wf[OF _ d] by (simp add: start_state_simps wf_map_of_notes)
  have w2: "wf_map (notesMap st2)" unfolding st2_def using w1 by (rule fold_deletion_wf)
  from download_loop_calls[OF d] obtain dls where
    c1: "calls st1 = [CreateFolder, ListFolder] @ dls"
    and dl: "\<forall>c \<in> set dls. \<exists>e \<in> set es. is_md_file e \<and> c = Download (path_lower e)"
    by (auto simp: start_state_simps)
  have c2: "calls st2 = calls st1" unfolding st2_def by (rule fold_deletion_calls)
  from upload_loop_Inr[OF u] have
    m3: "notesMap st3 = notesMap st2"
    and c3: "calls st3 = calls st2 @ map (\<lambda>n. Upload (note_path (m_id n)) (m_serializeNote n))
         (filter (shouldUpload env es) (map snd (notesMap st2)))"
    by (simp_all add: st2_def)
  show ?thesis
    using that[OF d st2_def w1 w2 c1 dl] rn rc m3 c3 c2 c1 by simp
qed

lemma mobile_old_removed:
  assumes "authenticated env" "list_folder env = ListOk es"
    and "res_error (syncWithRemote env ls) = None"
    and "n \<in> set ls" "m_id n \<notin> set (remote_ids es)" "is_old env n"
  shows "m_id n \<notin> m_id ` set (res_notes (syncWithRemote env ls))"
    and "Upload (note_path (m_id n)) body \<notin> set (res_calls (syncWithRemote env ls))"
proof -
  from assms(1-3) obtain st1 st2 dls where
    d: "download_loop env es (start_state ls) = Inr st1"
    and st2: "st2 = fold (deletion_step env es) ls st1"
    and w1: "wf_map (notesMap st1)" and w2: "wf_map (notesMap st2)"
    and c1: "calls st1 = [CreateFolder, ListFolder] @ dls"
    and dl: "\<forall>c \<in> set dls. \<exists>e \<in> set es. is_md_file e \<and> c = Download (path_lower e)"
    and rn: "res_notes (syncWithRemote env ls) = map snd (notesMap st2)"
    and rc: "res_calls (syncWithRemote env ls) =
       [CreateFolder, ListFolder] @ dls @
       map (\<lambda>n. Upload (note_path (m_id n)) (m_serializeNote n))
         (filter (shouldUpload env es) (map snd (notesMap st2)))"
    by (rule sync_completed_facts)
  have gone: "m_id n \<notin> fst ` set (notesMap st2)"
    unfolding st2 using assms(4-6) by (rule fold_deletion_removes)
  have k2: "keyed (notesMap st2)" using w2 by (simp add: wf_map_def)
  have ids: "m_id x \<noteq> m_id n" if "x \<in> snd ` set (notesMap st2)" for x
  proof
    assume "m_id x = m_id n"
    with keyed_mem[OF k2 that] gone show False by simp
  qed
  show "m_id n \<notin> m_id ` set (res_notes (syncWithRemote env ls))"
  proof
    assume "m_id n \<in> m_id ` set (res_notes (syncWithRemote env ls))"
    then obtain y where y: "y \<in> set (map snd (notesMap st2))" "m_id n = m_id y"
      unfolding rn by (rule imageE)
    then have "y \<in> snd ` set (notesMap st2)" by simp
    from ids[OF this] y(2) show False by simp
  qed
  show "Upload (note_path (m_id n)) body \<notin> set (res_calls (syncWithRemote env ls))"
  proof
    assume "Upload (note_path (m_id n)) body \<in> set (res_calls (syncWithRemote env ls))"
    then have "Upload (note_path (m_id n)) body \<in> set dls \<or>
        Upload (note_path (m_id n)) body \<in>
        set (map (\<lambda>n. Upload (note_path (m_id n)) (m_serializeNote n))
         (filter (shouldUpload env es) (map snd (notesMap st2))))"
      unfolding rc by simp
    moreover have "Upload (note_path (m_id n)) body \<notin> set dls" using dl by blast
    ultimately have "Upload (note_path (m_id n)) body \<in>
        (\<lambda>n. Upload (note_path (m_id n)) (m_serializeNote n)) ` (snd ` set (notesMap st2))"
      by auto
    then obtain x where x: "x \<in> snd ` set (notesMap st2)"
      "Upload (note_path (m_id n)) body = Upload (note_path (m_id x)) (m_serializeNote x)"
      by (rule imageE)
    from x(2) have "m_id x = m_id n" by (simp add: note_path_def)
    with ids[OF x(1)] show False by simp
  qed
qed

lemma mobile_young_uploaded:
  assumes "authenticated env" "list_folder env = ListOk es"
    and "res_error (syncWithRemote env ls) = None"
    and "n \<in> set ls" "m_id n \<notin> set (remote_ids es)"
    and young: "getTime env (m_created n) = Some c" "date_now env - grace_ms \<le> c"
    and dist: "distinct (map m_id ls)"
    and nofile: "find (\<lambda>e. entry_name e = m_id n @ ''.md'') es = None"
    and rem: "remote_consistent env es"
  shows "n \<in> set (res_notes (syncWithRemote env ls))"
    and "Upload (note_path (m_id n)) (m_serializeNote n) \<in> set (res_calls (syncWithRemote env ls))"
proof -
  from assms(1-3) obtain st1 st2 dls where
    d: "download_loop env es (start_state ls) = Inr st1"
    and st2: "st2 = fold (deletion_step env es) ls st1"
    and w1: "wf_map (notesMap st1)" and w2: "wf_map (notesMap st2)"
    and c1: "calls st1 = [CreateFolder, ListFolder] @ dls"
    and dl: "\<forall>c \<in> set dls. \<exists>e \<in> set es. is_md_file e \<and> c = Download (path_lower e)"
    and rn: "res_notes (syncWithRemote env ls) = map snd (notesMap st2)"
    and rc: "res_calls (syncWithRemote env ls) =
       [CreateFolder, ListFolder] @ dls @
       map (\<lambda>n. Upload (note_path (m_id n)) (m_serializeNote n))
         (filter (shouldUpload env es) (map snd (notesMap st2)))"
    by (rule sync_completed_facts)
  have m0: "map_of (notesMap (start_state ls)) (m_id n) = Some n"
    using map_of_notes_lookup[OF dist assms(4)] by (simp add: start_state_simps)
  have notin: "\<forall>e \<in> set es. is_md_file e \<longrightarrow> entry_noteId e \<noteq> m_id n"
    using assms(5) by (force simp: remote_ids_def)
  have idm: "\<forall>e \<in> set es. is_md_file e \<longrightarrow>
             (\<forall>body p. download env (path_lower e) = DlOk body \<and> parse env body (entry_name e) = Some p
                \<longrightarrow> m_id p = entry_noteId e)"
    using rem unfolding remote_consistent_def by blast
  have "\<forall>e \<in> set es. is_md_file e \<longrightarrow> entry_noteId e \<noteq> m_id n \<and>
             (\<forall>body p. download env (path_lower e) = DlOk body \<and> parse env body (entry_name e) = Some p
                \<longrightarrow> m_id p = entry_noteId e)"
    using notin idm by blast
  from download_loop_untouched[OF this d] m0
  have m1: "map_of (notesMap st1) (m_id n) = Some n" by simp
  have ny: "\<not> is_old env n" using young by (simp add: is_old_def)
  have "\<forall>l \<in> set ls. \<not> (m_id l = m_id n \<and> m_id n \<notin> set (remote_ids es) \<and> is_old env l)"
  proof
    fix l assume l: "l \<in> set ls"
    show "\<not> (m_id l = m_id n \<and> m_id n \<notin> set (remote_ids es) \<and> is_old env l)"
    proof
      assume a: "m_id l = m_id n \<and> m_id n \<notin> set (remote_ids es) \<and> is_old env l"
      with dist l assms(4) have "l = n" by (meson distinct_map inj_onD)
      with a ny show False by simp
    qed
  qed
  from fold_deletion_untouched[OF this, of st1] m1
  have m2: "map_of (notesMap st2) (m_id n) = Some n" by (simp add: st2)
  then have mem: "n \<in> snd ` set (notesMap st2)" by (rule wf_map_value)
  then show "n \<in> set (res_notes (syncWithRemote env ls))" unfolding rn by simp
  have "shouldUpload env es n" using nofile young by (simp add: shouldUpload_def)
  with mem show "Upload (note_path (m_id n)) (m_serializeNote n) \<in> set (res_calls (syncWithRemote env ls))"
    unfolding rc by auto
qed

lemma download_loop_split:
  assumes "download_loop env (es1 @ e # es2) st = Inr s"
  obtains sA sB where "download_loop env es1 st = Inr sA" "download_step env e sA = Inr sB"
    "download_loop env es2 sB = Inr s"
proof -
  from assms obtain sA where a: "download_loop env es1 st = Inr sA"
    and r: "download_loop env (e # es2) sA = Inr s"
    unfolding download_loop_append by (auto split: sum.splits)
  from r obtain sB where "download_step env e sA = Inr sB" "download_loop env es2 sB = Inr s"
    by (auto split: sum.splits)
  with a that show ?thesis by blast
qed

lemma remote_consistent_others:
  assumes "remote_consistent env (es1 @ e # es2)" "is_md_file e"
    and "e' \<in> set es1 \<union> set es2" "is_md_file e'"
  shows "entry_noteId e' \<noteq> entry_noteId e" "path_lower e' \<noteq> path_lower e"
proof -
  have mem: "e' \<in> set (filter is_md_file es1) \<union> set (filter is_md_file es2)"
    using assms(3,4) by auto
  have d1: "distinct (map entry_noteId (filter is_md_file es1) @ entry_noteId e #
                       map entry_noteId (filter is_md_file es2))"
    using assms(1,2) by (simp add: remote_consistent_def remote_ids_def)
  have d2: "distinct (map path_lower (filter is_md_file es1) @ path_lower e #
                       map path_lower (filter is_md_file es2))"
    using assms(1,2) by (simp add: remote_consistent_def)
  from d1 have "entry_noteId e \<notin> entry_noteId ` set (filter is_md_file es1)"
    "entry_noteId e \<notin> entry_noteId ` set (filter is_md_file es2)" by auto
  with mem show "entry_noteId e' \<noteq> entry_noteId e" by (metis Un_iff imageI)
  from d2 have "path_lower e \<notin> path_lower ` set (filter is_md_file es1)"
    "path_lower e \<notin> path_lower ` set (filter is_md_file es2)" by auto
  with mem show "path_lower e' \<noteq> path_lower e" by (metis Un_iff imageI)
qed

lemma remote_consistent_ids:
  assumes "remote_consistent env es" "e \<in> set es" "is_md_file e"
    "download env (path_lower e) = DlOk body" "parse env body (entry_name e) = Some p"
  shows "m_id p = entry_noteId e"
  using assms unfolding remote_consistent_def by blast

lemma find_distinct_name:
  assumes "distinct (map entry_name es)" "e \<in> set es"
  shows "find (\<lambda>e'. entry_name e' = entry_name e) es = Some e"
  using assms
proof (induction es)
  case Nil
  then show ?case by simp
next
  case (Cons a es)
  show ?case
  proof (cases "a = e")
    case True
    then show ?thesis by simp
  next
    case False
    with Cons.prems have m: "e \<in> set es" by simp
    with Cons.prems(1) have "entry_name a \<noteq> entry_name e" by force
    with Cons.IH m Cons.prems(1) show ?thesis by simp
  qed
qed

text \<open>The state of the download loop around the turn of one entry.\<close>

lemma mobile_entry_turn:
  assumes d: "download_loop env es (start_state ls) = Inr st1"
    and rem: "remote_consistent env es" and dist: "distinct (map m_id ls)"
    and n: "n \<in> set ls" and e: "e \<in> set es" "is_md_file e" "entry_noteId e = m_id n"
  obtains sA sB pre post where
    "map_of (notesMap sA) (m_id n) = Some n"
    "download_step env e sA = Inr sB"
    "map_of (notesMap st1) (m_id n) = map_of (notesMap sB) (m_id n)"
    "calls sA = [CreateFolder, ListFolder] @ pre"
    "calls st1 = calls sB @ post"
    "Download (path_lower e) \<notin> set pre" "Download (path_lower e) \<notin> set post"
proof -
  from e(1) obtain es1 es2 where es: "es = es1 @ e # es2" by (meson split_list)
  from d[unfolded es] obtain sA sB where
    a: "download_loop env es1 (start_state ls) = Inr sA"
    and b: "download_step env e sA = Inr sB"
    and c: "download_loop env es2 sB = Inr st1" by (rule download_loop_split)
  have others: "entry_noteId e' \<noteq> m_id n \<and> path_lower e' \<noteq> path_lower e"
    if "e' \<in> set es1 \<union> set es2" "is_md_file e'" for e'
    using remote_consistent_others[OF rem[unfolded es] e(2) that] e(3) by simp
  have idm: "m_id p = entry_noteId e'"
    if "e' \<in> set es1 \<union> set es2" "is_md_file e'" "download env (path_lower e') = DlOk body"
      "parse env body (entry_name e') = Some p" for e' body p
    using remote_consistent_ids[OF rem _ that(2,3,4)] that(1) es by simp
  have u1: "\<forall>e' \<in> set es1. is_md_file e' \<longrightarrow> entry_noteId e' \<noteq> m_id n \<and>
             (\<forall>body p. download env (path_lower e') = DlOk body \<and> parse env body (entry_name e') = Some p
                \<longrightarrow> m_id p = entry_noteId e')"
    using others idm by (metis UnI1)
  have u2: "\<forall>e' \<in> set es2. is_md_file e' \<longrightarrow> entry_noteId e' \<noteq> m_id n \<and>
             (\<forall>body p. download env (path_lower e') = DlOk body \<and> parse env body (entry_name e') = Some p
                \<longrightarrow> m_id p = entry_noteId e')"
    using others idm by (metis UnI2)
  have m0: "map_of (notesMap (start_state ls)) (m_id n) = Some n"
    using map_of_notes_lookup[OF dist n] by (simp add: start_state_simps)
  have mA: "map_of (notesMap sA) (m_id n) = Some n"
    using download_loop_untouched[OF u1 a] m0 by simp
  have m1: "map_of (notesMap st1) (m_id n) = map_of (notesMap sB) (m_id n)"
    using download_loop_untouched[OF u2 c] .
  from download_loop_calls[OF a] obtain pre where
    pre: "calls sA = [CreateFolder, ListFolder] @ pre"
    "\<forall>c \<in> set pre. \<exists>e' \<in> set es1. is_md_file e' \<and> c = Download (path_lower e')"
    by (auto simp: start_state_simps)
  from download_loop_calls[OF c] obtain post where
    post: "calls st1 = calls sB @ post"
    "\<forall>c \<in> set post. \<exists>e' \<in> set es2. is_md_file e' \<and> c = Download (path_lower e')"
    by auto
  have np: "Download (path_lower e) \<notin> set pre"
  proof
    assume "Download (path_lower e) \<in> set pre"
    with pre(2) obtain e' where "e' \<in> set es1" "is_md_file e'" "path_lower e = path_lower e'"
      by auto
    with others[of e'] show False by simp
  qed
  have nq: "Download (path_lower e) \<notin> set post"
  proof
    assume "Download (path_lower e) \<in> set post"
    with post(2) obtain e' where "e' \<in> set es2" "is_md_file e'" "path_lower e = path_lower e'"
      by auto
    with others[of e'] show False by simp
  qed
  from that[OF mA b m1 pre(1) post(1) np nq] show ?thesis .
qed

lemma deletion_keeps_remote:
  assumes "k \<in> set (remote_ids es)"
  shows "map_of (notesMap (fold (deletion_step env es) ls st)) k = map_of (notesMap st) k"
  by (rule fold_deletion_untouched) (use assms in simp)

lemma mobile_within_tolerance:
  assumes auth: "authenticated env" "list_folder env = ListOk es"
    and ok: "res_error (syncWithRemote env ls) = None"
    and rem: "remote_consistent env es" and dist: "distinct (map m_id ls)"
    and n: "n \<in> set ls" and e: "e \<in> set es" "is_md_file e" "entry_noteId e = m_id n"
      "entry_name e = m_id n @ ''.md''"
    and times: "getTime env (m_updated n) = Some l" "date_of env (client_modified e) = Some rt"
      "\<bar>rt - l\<bar> < 2000"
  shows "Download (path_lower e) \<notin> set (res_calls (syncWithRemote env ls))"
    and "Upload (note_path (m_id n)) body \<notin> set (res_calls (syncWithRemote env ls))"
    and "n \<in> set (res_notes (syncWithRemote env ls))"
proof -
  from auth ok obtain st1 st2 dls where
    d: "download_loop env es (start_state ls) = Inr st1"
    and st2: "st2 = fold (deletion_step env es) ls st1"
    and w1: "wf_map (notesMap st1)" and w2: "wf_map (notesMap st2)"
    and c1: "calls st1 = [CreateFolder, ListFolder] @ dls"
    and dl: "\<forall>c \<in> set dls. \<exists>e \<in> set es. is_md_file e \<and> c = Download (path_lower e)"
    and rn: "res_notes (syncWithRemote env ls) = map snd (notesMap st2)"
    and rc: "res_calls (syncWithRemote env ls) =
       [CreateFolder, ListFolder] @ dls @
       map (\<lambda>n. Upload (note_path (m_id n)) (m_serializeNote n))
         (filter (shouldUpload env es) (map snd (notesMap st2)))"
    by (rule sync_completed_facts)
  from d rem dist n e(1,2,3) obtain sA sB pre post where
    mA: "map_of (notesMap sA) (m_id n) = Some n"
    and b: "download_step env e sA = Inr sB"
    and m1: "map_of (notesMap st1) (m_id n) = map_of (notesMap sB) (m_id n)"
    and cA: "calls sA = [CreateFolder, ListFolder] @ pre"
    and cB: "calls st1 = calls sB @ post"
    and np: "Download (path_lower e) \<notin> set pre" and nq: "Download (path_lower e) \<notin> set post"
    by (rule mobile_entry_turn)
  have nd: "\<not> shouldDownload env e (map_of (notesMap sA) (entry_noteId e))"
    using times by (simp add: e(3) mA shouldDownload_def newer_by_tolerance_def)
  then have sB: "sB = sA" using b download_step_skip[of e env sA] by simp
  have calls1: "calls st1 = [CreateFolder, ListFolder] @ pre @ post" using cA cB sB by simp
  then have dls: "dls = pre @ post" using c1 by simp
  have map2: "map_of (notesMap st2) (m_id n) = Some n"
  proof -
    have "m_id n \<in> set (remote_ids es)" using e(1,2,3) by (force simp: remote_ids_def)
    from deletion_keeps_remote[OF this, of env ls st1] m1 mA sB show ?thesis by (simp add: st2)
  qed
  have up: "\<not> shouldUpload env es n"
  proof -
    have "distinct (map entry_name es)" using rem by (simp add: remote_consistent_def)
    from find_distinct_name[OF this e(1)]
    have "find (\<lambda>e'. entry_name e' = m_id n @ ''.md'') es = Some e" by (simp add: e(4))
    then show ?thesis using times by (simp add: shouldUpload_def newer_by_tolerance_def)
  qed
  show "n \<in> set (res_notes (syncWithRemote env ls))"
    unfolding rn using wf_map_value[OF map2] by simp
  show "Download (path_lower e) \<notin> set (res_calls (syncWithRemote env ls))"
    unfolding rc dls using np nq by auto
  show "Upload (note_path (m_id n)) body \<notin> set (res_calls (syncWithRemote env ls))"
  proof
    assume "Upload (note_path (m_id n)) body \<in> set (res_calls (syncWithRemote env ls))"
    then have "Upload (note_path (m_id n)) body \<in> set dls \<or>
        Upload (note_path (m_id n)) body \<in>
        set (map (\<lambda>n. Upload (note_path (m_id n)) (m_serializeNote n))
         (filter (shouldUpload env es) (map snd (notesMap st2))))"
      unfolding rc by simp
    moreover have "Upload (note_path (m_id n)) body \<notin> set dls" using dl by blast
    ultimately have "Upload (note_path (m_id n)) body \<in>
        (\<lambda>n. Upload (note_path (m_id n)) (m_serializeNote n)) `
          {x \<in> snd ` set (notesMap st2). shouldUpload env es x}"
      by auto
    then obtain x where x: "x \<in> {x \<in> snd ` set (notesMap st2). shouldUpload env es x}"
      "Upload (note_path (m_id n)) body = Upload (note_path (m_id x)) (m_serializeNote x)"
      by (rule imageE)
    from x(2) have "m_id x = m_id n" by (simp add: note_path_def)
    with x(1) wf_map_unique[OF w2 map2, of x] have "x = n" by simp
    with x(1) up show False by simp
  qed
qed

lemma mobile_remote_newer:
  assumes auth: "authenticated env" "list_folder env = ListOk es"
    and ok: "res_error (syncWithRemote env ls) = None"
    and rem: "remote_consistent env es" and dist: "distinct (map m_id ls)"
    and n: "n \<in> set ls" and e: "e \<in> set es" "is_md_file e" "entry_noteId e = m_id n"
    and times: "getTime env (m_updated n) = Some l" "date_of env (client_modified e) = Some rt"
      "rt > l + 2000"
  shows "Download (path_lower e) \<in> set (res_calls (syncWithRemote env ls))"
    and "download env (path_lower e) = DlOk body \<Longrightarrow> parse env body (entry_name e) = Some p \<Longrightarrow>
         keep_widget (Some n) p \<in> set (res_notes (syncWithRemote env ls)) \<and>
         (\<forall>x \<in> set (res_notes (syncWithRemote env ls)). m_id x = m_id n \<longrightarrow> x = keep_widget (Some n) p)"
proof -
  from auth ok obtain st1 st2 dls where
    d: "download_loop env es (start_state ls) = Inr st1"
    and st2: "st2 = fold (deletion_step env es) ls st1"
    and w1: "wf_map (notesMap st1)" and w2: "wf_map (notesMap st2)"
    and c1: "calls st1 = [CreateFolder, ListFolder] @ dls"
    and dl: "\<forall>c \<in> set dls. \<exists>e \<in> set es. is_md_file e \<and> c = Download (path_lower e)"
    and rn: "res_notes (syncWithRemote env ls) = map snd (notesMap st2)"
    and rc: "res_calls (syncWithRemote env ls) =
       [CreateFolder, ListFolder] @ dls @
       map (\<lambda>n. Upload (note_path (m_id n)) (m_serializeNote n))
         (filter (shouldUpload env es) (map snd (notesMap st2)))"
    by (rule sync_completed_facts)
  from d rem dist n e(1,2,3) obtain sA sB pre post where
    mA: "map_of (notesMap sA) (m_id n) = Some n"
    and b: "download_step env e sA = Inr sB"
    and m1: "map_of (notesMap st1) (m_id n) = map_of (notesMap sB) (m_id n)"
    and cA: "calls sA = [CreateFolder, ListFolder] @ pre"
    and cB: "calls st1 = calls sB @ post"
    and np: "Download (path_lower e) \<notin> set pre" and nq: "Download (path_lower e) \<notin> set post"
    by (rule mobile_entry_turn)
  have sd: "shouldDownload env e (map_of (notesMap sA) (entry_noteId e))"
    using times by (simp add: e(3) mA shouldDownload_def newer_by_tolerance_def)
  note fetch = download_step_fetch[OF e(2) sd]
  have "Download (path_lower e) \<in> set (calls sB)"
    using b fetch by (auto split: download_result.splits option.splits)
  then have "Download (path_lower e) \<in> set (calls st1)" using cB by simp
  then show "Download (path_lower e) \<in> set (res_calls (syncWithRemote env ls))"
    unfolding rc using c1 by auto
  assume dl_ok: "download env (path_lower e) = DlOk body" and pr: "parse env body (entry_name e) = Some p"
  have idp: "m_id p = m_id n" using remote_consistent_ids[OF rem e(1,2) dl_ok pr] e(3) by simp
  have "download_step env e sA =
      Inr (sA\<lparr>calls := calls sA @ [Download (path_lower e)],
              notesMap := AList.update (m_id p) (keep_widget (Some n) p) (notesMap sA),
              syncedCount := Suc (syncedCount sA)\<rparr>)"
    using fetch dl_ok pr by (simp add: e(3) mA)
  with b have "sB = sA\<lparr>calls := calls sA @ [Download (path_lower e)],
              notesMap := AList.update (m_id p) (keep_widget (Some n) p) (notesMap sA),
              syncedCount := Suc (syncedCount sA)\<rparr>" by simp
  then have "notesMap sB = AList.update (m_id p) (keep_widget (Some n) p) (notesMap sA)"
    by simp
  then have mB: "map_of (notesMap sB) (m_id n) = Some (keep_widget (Some n) p)"
    using idp by (simp add: update_conv')
  have map2: "map_of (notesMap st2) (m_id n) = Some (keep_widget (Some n) p)"
  proof -
    have "m_id n \<in> set (remote_ids es)" using e(1,2,3) by (force simp: remote_ids_def)
    from deletion_keeps_remote[OF this, of env ls st1] m1 mB show ?thesis by (simp add: st2)
  qed
  have a: "keep_widget (Some n) p \<in> set (res_notes (syncWithRemote env ls))"
    unfolding rn using wf_map_value[OF map2] by simp
  have u: "x = keep_widget (Some n) p"
    if "x \<in> set (res_notes (syncWithRemote env ls))" "m_id x = m_id n" for x
  proof -
    from that(1) have "x \<in> snd ` set (notesMap st2)" unfolding rn by simp
    from wf_map_unique[OF w2 map2 this that(2)] show ?thesis .
  qed
  from a u show "keep_widget (Some n) p \<in> set (res_notes (syncWithRemote env ls)) \<and>
         (\<forall>x \<in> set (res_notes (syncWithRemote env ls)). m_id x = m_id n \<longrightarrow> x = keep_widget (Some n) p)"
    by blast
qed

section \<open>Desktop sync manager: the recorded hash\<close>


lemma refresh_frame:
  assumes "refreshAccessToken env s = (b, s')"
  shows "\<exists>new. requests s' = requests s @ new \<and> (\<forall>x\<in>set new. \<not> is_file_upload x) \<and>
           noteHashes s' = noteHashes s \<and> clock_reads s' = clock_reads s"
  using assms
  by (auto simp: refreshAccessToken_def Let_def send_def disconnect_def
      split: if_splits fetch_reply.splits option.splits)

lemma ensureValidToken_frame:
  assumes "ensureValidToken env s = (b, s')"
  shows "\<exists>new. requests s' = requests s @ new \<and> (\<forall>x\<in>set new. \<not> is_file_upload x) \<and>
           noteHashes s' = noteHashes s \<and> clock_reads s' = clock_reads s"
proof (cases "accessToken s = [] \<or> \<not> dbx s")
  case True
  with assms show ?thesis by (auto simp: ensureValidToken_def split: if_splits)
next
  case False
  let ?s1 = "send UsersGetCurrentAccount s"
  show ?thesis
  proof (cases "api_account env (length (requests s))")
    case (SdkResolves u)
    with False assms show ?thesis by (auto simp: ensureValidToken_def Let_def send_def)
  next
    case (SdkRejects st summary)
    show ?thesis
    proof (cases "st = Some 401 \<or> js_includes summary ''expired''")
      case True
      with False SdkRejects assms have r: "refreshAccessToken env ?s1 = (b, s')"
        by (auto simp: ensureValidToken_def Let_def)
      from refresh_frame[OF r] obtain new where
        n: "requests s' = requests ?s1 @ new" "\<forall>x\<in>set new. \<not> is_file_upload x"
           "noteHashes s' = noteHashes ?s1" "clock_reads s' = clock_reads ?s1" by blast
      have "requests s' = requests s @ (UsersGetCurrentAccount # new)"
        using n(1) by (simp add: send_def)
      moreover have "\<forall>x\<in>set (UsersGetCurrentAccount # new). \<not> is_file_upload x" using n(2) by simp
      ultimately show ?thesis using n(3,4) by (auto simp: send_def)
    next
      case f: False
      with False SdkRejects assms show ?thesis
        by (auto simp: ensureValidToken_def Let_def send_def)
    qed
  qed
qed







lemma ensureValidToken_clock:
  "ensureValidToken env s = (b, s') \<Longrightarrow> clock_reads s' = clock_reads s"
  using ensureValidToken_frame by blast






lemma sent_since_append:
  "requests s' = requests s @ new \<Longrightarrow> sent_since s s' = new"
  by (simp add: sent_since_def)










section \<open>Desktop sync manager: the loops of a full sync\<close>

lemma want_download_times:
  assumes "map_of (vault_dir s) (entry_name e) = Some f" "read_ok env (entry_name e)"
    and "local_updated env (file_content f) = Some (Some l)"
    and "client_modified e = Some t" "remote_time env t = Some r"
  shows "want_download env s e \<longleftrightarrow> r - l \<ge> 2000"
  using assms by (auto simp: want_download_def)

lemma download_entry_skip:
  assumes "\<not> (is_md_file e \<and> want_download env s e)"
  shows "download_entry env e (counts, s) = Inr (counts, s)"
  using assms by (auto simp: download_entry_def)

lemma download_entry_fetch:
  assumes "is_md_file e" "want_download env s e"
  shows "(\<exists>st sm. api_download env (length (requests s)) = SdkRejects st sm \<and>
            download_entry env e (counts, s) = Inl ((st, sm), counts, send (FilesDownload (path_lower e)) s)) \<or>
         (api_download env (length (requests s)) = SdkResolves None \<and>
            download_entry env e (counts, s) = Inr (counts, send (FilesDownload (path_lower e)) s)) \<or>
         (\<exists>body. api_download env (length (requests s)) = SdkResolves (Some body) \<and>
            \<not> write_file_ok env (entry_name e) \<and>
            download_entry env e (counts, s) = Inl ((None, []), counts, send (FilesDownload (path_lower e)) s)) \<or>
         (\<exists>body. api_download env (length (requests s)) = SdkResolves (Some body) \<and>
            write_file_ok env (entry_name e) \<and>
            download_entry env e (counts, s) =
              Inr (counts\<lparr>downloaded := Suc (downloaded counts)\<rparr>,
                   (send (FilesDownload (path_lower e)) s)\<lparr>vault_dir :=
                      AList.update (entry_name e)
                        \<lparr>file_content = body, ctimeMs = ctime_written env (entry_name e)\<rparr>
                        (vault_dir s)\<rparr>))"
  using assms
  by (cases "api_download env (length (requests s))")
    (auto simp: download_entry_def Let_def send_def split: option.splits)

text \<open>deletion loop\<close>

lemma delete_local_frame:
  "requests (snd (delete_local env ids nm acc)) = requests (snd acc) \<and>
   dbx (snd (delete_local env ids nm acc)) = dbx (snd acc)"
  by (cases acc) (auto simp: delete_local_def split: option.splits)

lemma delete_local_other:
  "x \<noteq> nm \<Longrightarrow>
   map_of (vault_dir (snd (delete_local env ids nm acc))) x = map_of (vault_dir (snd acc)) x"
  by (cases acc) (auto simp: delete_local_def delete_conv' split: option.splits)

lemma fold_delete_frame:
  "requests (snd (fold (delete_local env ids) files acc)) = requests (snd acc) \<and>
   dbx (snd (fold (delete_local env ids) files acc)) = dbx (snd acc)"
  by (induction files arbitrary: acc) (simp_all add: delete_local_frame)

lemma fold_delete_other:
  "x \<notin> set files \<Longrightarrow>
   map_of (vault_dir (snd (fold (delete_local env ids) files acc))) x = map_of (vault_dir (snd acc)) x"
  by (induction files arbitrary: acc) (auto simp: delete_local_other)

lemma fold_delete_at:
  assumes "distinct files" "x \<in> set files"
  shows "\<exists>acc1. requests (snd acc1) = requests (snd acc) \<and>
           map_of (vault_dir (snd acc1)) x = map_of (vault_dir (snd acc)) x \<and>
           map_of (vault_dir (snd (fold (delete_local env ids) files acc))) x
             = map_of (vault_dir (snd (delete_local env ids x acc1))) x"
  using assms
proof (induction files arbitrary: acc)
  case Nil
  then show ?case by simp
next
  case (Cons a files)
  show ?case
  proof (cases "x = a")
    case True
    with Cons.prems have "x \<notin> set files" by simp
    then have "map_of (vault_dir (snd (fold (delete_local env ids) files (delete_local env ids a acc)))) x
                 = map_of (vault_dir (snd (delete_local env ids a acc))) x"
      by (rule fold_delete_other)
    with True show ?thesis by (intro exI[of _ acc]) simp
  next
    case False
    with Cons.prems have d: "distinct files" and m: "x \<in> set files" by simp_all
    from Cons.IH[OF d m, of "delete_local env ids a acc"] obtain acc1 where
      a: "requests (snd acc1) = requests (snd (delete_local env ids a acc))"
         "map_of (vault_dir (snd acc1)) x = map_of (vault_dir (snd (delete_local env ids a acc))) x"
         "map_of (vault_dir (snd (fold (delete_local env ids) files (delete_local env ids a acc)))) x
             = map_of (vault_dir (snd (delete_local env ids x acc1))) x" by blast
    have "map_of (vault_dir (snd (delete_local env ids a acc))) x = map_of (vault_dir (snd acc)) x"
      using False by (simp add: delete_local_other)
    with a show ?thesis
      by (intro exI[of _ acc1]) (simp add: delete_local_frame)
  qed
qed

lemma delete_local_at:
  assumes "map_of (vault_dir (snd acc)) x = Some f"
  shows "map_of (vault_dir (snd (delete_local env ids x acc))) x =
           (if ends_with x ''.md'' \<and> file_noteId x \<notin> set ids \<and>
               now_at env x - ctimeMs f > 30000 \<and> unlink_ok env x
            then None else Some f)"
  using assms by (cases acc) (auto simp: delete_local_def delete_conv')

lemma delete_locals_at:
  assumes "distinct (map fst (vault_dir s))" "map_of (vault_dir s) x = Some f" "readdir_ok env"
  shows "map_of (vault_dir (snd (delete_locals env ids (counts, s)))) x =
           (if ends_with x ''.md'' \<and> file_noteId x \<notin> set ids \<and>
               now_at env x - ctimeMs f > 30000 \<and> unlink_ok env x
            then None else Some f)"
proof -
  have m: "x \<in> set (map fst (vault_dir s))"
    using assms(2) by (metis domI dom_map_of_conv_image_fst set_map)
  from fold_delete_at[OF assms(1) m, of "(counts, s)" env ids] obtain acc1 where
    a: "map_of (vault_dir (snd acc1)) x = map_of (vault_dir s) x"
       "map_of (vault_dir (snd (fold (delete_local env ids) (map fst (vault_dir s)) (counts, s)))) x
          = map_of (vault_dir (snd (delete_local env ids x acc1))) x" by auto
  from a(1) assms(2) have "map_of (vault_dir (snd acc1)) x = Some f" by simp
  from delete_local_at[OF this, of env ids] a(2) assms(3) show ?thesis
    by (simp add: delete_locals_def)
qed

lemma delete_locals_frame:
  "requests (snd (delete_locals env ids acc)) = requests (snd acc) \<and>
   dbx (snd (delete_locals env ids acc)) = dbx (snd acc)"
  by (simp add: delete_locals_def fold_delete_frame)

lemma delete_local_distinct:
  "distinct (map fst (vault_dir (snd acc))) \<Longrightarrow>
   distinct (map fst (vault_dir (snd (delete_local env ids nm acc))))"
  by (cases acc) (auto simp: delete_local_def distinct_delete split: option.splits)

lemma fold_delete_distinct:
  "distinct (map fst (vault_dir (snd acc))) \<Longrightarrow>
   distinct (map fst (vault_dir (snd (fold (delete_local env ids) files acc))))"
  by (induction files arbitrary: acc) (simp_all add: delete_local_distinct)

lemma delete_locals_distinct:
  "distinct (map fst (vault_dir (snd acc))) \<Longrightarrow>
   distinct (map fst (vault_dir (snd (delete_locals env ids acc))))"
  by (simp add: delete_locals_def fold_delete_distinct)

text \<open>upload loop\<close>

lemma upload_file_dir:
  "vault_dir (snd (upload_file env nm acc)) = vault_dir (snd acc)"
  by (cases acc) (auto simp: upload_file_def Let_def send_def split: option.splits sdk_reply.splits)

lemma fold_upload_dir:
  "vault_dir (snd (fold (upload_file env) files acc)) = vault_dir (snd acc)"
  by (induction files arbitrary: acc) (simp_all add: upload_file_dir)

lemma upload_file_requests:
  "\<exists>new. requests (snd (upload_file env nm acc)) = requests (snd acc) @ new \<and>
         (\<forall>r\<in>set new. \<exists>f. r = SdkFilesUpload (''/notes/'' @ nm) (file_content f) \<and>
                           map_of (vault_dir (snd acc)) nm = Some f) \<and>
         (\<forall>f. ends_with nm ''.md'' \<and> map_of (vault_dir (snd acc)) nm = Some f \<and> read_ok env nm \<longrightarrow>
              new = [SdkFilesUpload (''/notes/'' @ nm) (file_content f)])"
  by (cases acc) (auto simp: upload_file_def Let_def send_def split: option.splits sdk_reply.splits)

lemma fold_upload_requests:
  "\<exists>new. requests (snd (fold (upload_file env) files acc)) = requests (snd acc) @ new \<and>
         (\<forall>r\<in>set new. \<exists>nm f. nm \<in> set files \<and> r = SdkFilesUpload (''/notes/'' @ nm) (file_content f) \<and>
                           map_of (vault_dir (snd acc)) nm = Some f) \<and>
         (\<forall>nm f. nm \<in> set files \<and> ends_with nm ''.md'' \<and>
              map_of (vault_dir (snd acc)) nm = Some f \<and> read_ok env nm \<longrightarrow>
              SdkFilesUpload (''/notes/'' @ nm) (file_content f) \<in> set new)"
proof (induction files arbitrary: acc)
  case Nil
  then show ?case by simp
next
  case (Cons a files)
  let ?acc1 = "upload_file env a acc"
  from upload_file_requests[of env a acc] obtain new1 where
    n1: "requests (snd ?acc1) = requests (snd acc) @ new1"
        "\<forall>r\<in>set new1. \<exists>f. r = SdkFilesUpload (''/notes/'' @ a) (file_content f) \<and>
                           map_of (vault_dir (snd acc)) a = Some f"
        "\<forall>f. ends_with a ''.md'' \<and> map_of (vault_dir (snd acc)) a = Some f \<and> read_ok env a \<longrightarrow>
              new1 = [SdkFilesUpload (''/notes/'' @ a) (file_content f)]" by blast
  from Cons.IH[of ?acc1] obtain new2 where
    n2: "requests (snd (fold (upload_file env) files ?acc1)) = requests (snd ?acc1) @ new2"
        "\<forall>r\<in>set new2. \<exists>nm f. nm \<in> set files \<and> r = SdkFilesUpload (''/notes/'' @ nm) (file_content f) \<and>
                           map_of (vault_dir (snd ?acc1)) nm = Some f"
        "\<forall>nm f. nm \<in> set files \<and> ends_with nm ''.md'' \<and>
              map_of (vault_dir (snd ?acc1)) nm = Some f \<and> read_ok env nm \<longrightarrow>
              SdkFilesUpload (''/notes/'' @ nm) (file_content f) \<in> set new2" by blast
  have d: "vault_dir (snd ?acc1) = vault_dir (snd acc)" by (rule upload_file_dir)
  have r: "requests (snd (fold (upload_file env) (a # files) acc)) = requests (snd acc) @ (new1 @ new2)"
    using n1(1) n2(1) by simp
  have p1: "\<forall>r\<in>set (new1 @ new2). \<exists>nm f. nm \<in> set (a # files) \<and>
              r = SdkFilesUpload (''/notes/'' @ nm) (file_content f) \<and>
              map_of (vault_dir (snd acc)) nm = Some f"
  proof
    fix r assume "r \<in> set (new1 @ new2)"
    then consider "r \<in> set new1" | "r \<in> set new2" by auto
    then show "\<exists>nm f. nm \<in> set (a # files) \<and>
              r = SdkFilesUpload (''/notes/'' @ nm) (file_content f) \<and>
              map_of (vault_dir (snd acc)) nm = Some f"
    proof cases
      case 1
      with n1(2) obtain f where "r = SdkFilesUpload (''/notes/'' @ a) (file_content f)"
        "map_of (vault_dir (snd acc)) a = Some f" by blast
      then show ?thesis by (intro exI[of _ a] exI[of _ f]) simp
    next
      case 2
      with n2(2) obtain nm f where "nm \<in> set files"
        "r = SdkFilesUpload (''/notes/'' @ nm) (file_content f)"
        "map_of (vault_dir (snd ?acc1)) nm = Some f" by blast
      then show ?thesis unfolding d by (intro exI[of _ nm] exI[of _ f]) simp
    qed
  qed
  have p2: "\<forall>nm f. nm \<in> set (a # files) \<and> ends_with nm ''.md'' \<and>
              map_of (vault_dir (snd acc)) nm = Some f \<and> read_ok env nm \<longrightarrow>
              SdkFilesUpload (''/notes/'' @ nm) (file_content f) \<in> set (new1 @ new2)"
  proof (intro allI impI)
    fix nm f
    assume a: "nm \<in> set (a # files) \<and> ends_with nm ''.md'' \<and>
              map_of (vault_dir (snd acc)) nm = Some f \<and> read_ok env nm"
    show "SdkFilesUpload (''/notes/'' @ nm) (file_content f) \<in> set (new1 @ new2)"
    proof (cases "nm = a")
      case True
      with a n1(3) have "new1 = [SdkFilesUpload (''/notes/'' @ a) (file_content f)]" by blast
      with True show ?thesis by simp
    next
      case False
      with a have "nm \<in> set files" by simp
      with a n2(3) d have "SdkFilesUpload (''/notes/'' @ nm) (file_content f) \<in> set new2" by metis
      then show ?thesis by simp
    qed
  qed
  from r p1 p2 show ?case by blast
qed

lemma download_entry_frame:
  assumes "download_entry env e (c, s) = Inr (c', s')"
  shows "dbx s' = dbx s"
    and "\<exists>new. requests s' = requests s @ new \<and>
           (\<forall>r\<in>set new. is_md_file e \<and> want_download env s e \<and> r = FilesDownload (path_lower e))"
    and "\<And>x. x \<noteq> entry_name e \<Longrightarrow> map_of (vault_dir s') x = map_of (vault_dir s) x"
    and "\<not> (is_md_file e \<and> want_download env s e) \<Longrightarrow> s' = s"
    and "distinct (map fst (vault_dir s)) \<Longrightarrow> distinct (map fst (vault_dir s'))"
proof -
  show "dbx s' = dbx s"
    using assms
    by (auto simp: download_entry_def Let_def send_def
        split: if_splits sdk_reply.splits option.splits)
  show "\<exists>new. requests s' = requests s @ new \<and>
           (\<forall>r\<in>set new. is_md_file e \<and> want_download env s e \<and> r = FilesDownload (path_lower e))"
    using assms
    by (auto simp: download_entry_def Let_def send_def
        split: if_splits sdk_reply.splits option.splits)
  show "\<And>x. x \<noteq> entry_name e \<Longrightarrow> map_of (vault_dir s') x = map_of (vault_dir s) x"
    using assms
    by (auto simp: download_entry_def Let_def send_def update_conv'
        split: if_splits sdk_reply.splits option.splits)
  show "\<not> (is_md_file e \<and> want_download env s e) \<Longrightarrow> s' = s"
    using assms by (auto simp: download_entry_def)
  show "distinct (map fst (vault_dir s)) \<Longrightarrow> distinct (map fst (vault_dir s'))"
    using assms
    by (auto simp: download_entry_def Let_def send_def distinct_update
        split: if_splits sdk_reply.splits option.splits)
qed

lemma download_entries_frame:
  assumes "download_entries env es (c, s) = Inr (c', s')"
  shows "dbx s' = dbx s \<and>
         (\<exists>new. requests s' = requests s @ new \<and>
            (\<forall>r\<in>set new. \<exists>e\<in>set es. is_md_file e \<and> r = FilesDownload (path_lower e))) \<and>
         (\<forall>x. x \<notin> entry_name ` set (filter is_md_file es) \<longrightarrow>
            map_of (vault_dir s') x = map_of (vault_dir s) x) \<and>
         (distinct (map fst (vault_dir s)) \<longrightarrow> distinct (map fst (vault_dir s')))"
  using assms
proof (induction es arbitrary: c s)
  case Nil
  then show ?case by simp
next
  case (Cons e es)
  from Cons.prems obtain c1 s1 where
    st: "download_entry env e (c, s) = Inr (c1, s1)"
    and rest: "download_entries env es (c1, s1) = Inr (c', s')"
    by (auto split: sum.splits)
  note f = download_entry_frame[OF st]
  from f(2) obtain new1 where
    n1: "requests s1 = requests s @ new1"
        "\<forall>r\<in>set new1. is_md_file e \<and> want_download env s e \<and> r = FilesDownload (path_lower e)"
    by blast
  from Cons.IH[OF rest] obtain new2 where
    i: "dbx s' = dbx s1" "requests s' = requests s1 @ new2"
       "\<forall>r\<in>set new2. \<exists>e\<in>set es. is_md_file e \<and> r = FilesDownload (path_lower e)"
       "\<forall>x. x \<notin> entry_name ` set (filter is_md_file es) \<longrightarrow>
            map_of (vault_dir s') x = map_of (vault_dir s1) x"
       "distinct (map fst (vault_dir s1)) \<longrightarrow> distinct (map fst (vault_dir s'))"
    by blast
  have a: "dbx s' = dbx s" using i(1) f(1) by simp
  have b: "requests s' = requests s @ (new1 @ new2)" using n1(1) i(2) by simp
  have c: "\<forall>r\<in>set (new1 @ new2). \<exists>x\<in>set (e # es). is_md_file x \<and> r = FilesDownload (path_lower x)"
    using n1(2) i(3) by auto
  have d: "\<forall>x. x \<notin> entry_name ` set (filter is_md_file (e # es)) \<longrightarrow>
            map_of (vault_dir s') x = map_of (vault_dir s) x"
  proof (intro allI impI)
    fix x assume x: "x \<notin> entry_name ` set (filter is_md_file (e # es))"
    then have x2: "x \<notin> entry_name ` set (filter is_md_file es)" by auto
    have "map_of (vault_dir s1) x = map_of (vault_dir s) x"
    proof (cases "is_md_file e \<and> want_download env s e")
      case True
      with x have "x \<noteq> entry_name e" by auto
      then show ?thesis by (rule f(3))
    next
      case False
      then have "s1 = s" by (rule f(4))
      then show ?thesis by simp
    qed
    with i(4) x2 show "map_of (vault_dir s') x = map_of (vault_dir s) x" by simp
  qed
  have g: "distinct (map fst (vault_dir s)) \<longrightarrow> distinct (map fst (vault_dir s'))"
    using f(5) i(5) by blast
  from a b c d g show ?case by blast
qed

lemma download_entries_append:
  "download_entries env (xs @ ys) acc =
     (case download_entries env xs acc of
        Inl x \<Rightarrow> Inl x
      | Inr acc1 \<Rightarrow> download_entries env ys acc1)"
  by (induction xs arbitrary: acc) (auto split: sum.splits)

lemma uploadToDropbox_frame:
  assumes "dbx s" "readdir_ok env"
  shows "vault_dir (snd (uploadToDropbox env s)) = vault_dir s"
    and "\<exists>new. requests (snd (uploadToDropbox env s)) = requests s @ new \<and>
           (\<forall>r\<in>set new. \<exists>nm f. r = SdkFilesUpload (''/notes/'' @ nm) (file_content f) \<and>
                             map_of (vault_dir s) nm = Some f) \<and>
           (\<forall>nm f. ends_with nm ''.md'' \<and> map_of (vault_dir s) nm = Some f \<and> read_ok env nm \<longrightarrow>
                SdkFilesUpload (''/notes/'' @ nm) (file_content f) \<in> set new)"
proof -
  let ?z = "(\<lparr>files_uploaded = 0, upload_errors = 0\<rparr>, s)"
  have u: "uploadToDropbox env s = fold (upload_file env) (map fst (vault_dir s)) ?z"
    using assms by (simp add: uploadToDropbox_def)
  show "vault_dir (snd (uploadToDropbox env s)) = vault_dir s"
    unfolding u by (simp add: fold_upload_dir)
  from fold_upload_requests[of env "map fst (vault_dir s)" ?z] obtain new where
    n: "requests (snd (fold (upload_file env) (map fst (vault_dir s)) ?z)) = requests s @ new"
       "\<forall>r\<in>set new. \<exists>nm f. nm \<in> set (map fst (vault_dir s)) \<and>
            r = SdkFilesUpload (''/notes/'' @ nm) (file_content f) \<and> map_of (vault_dir s) nm = Some f"
       "\<forall>nm f. nm \<in> set (map fst (vault_dir s)) \<and> ends_with nm ''.md'' \<and>
            map_of (vault_dir s) nm = Some f \<and> read_ok env nm \<longrightarrow>
            SdkFilesUpload (''/notes/'' @ nm) (file_content f) \<in> set new"
    by auto
  have m: "\<And>nm f. map_of (vault_dir s) nm = Some f \<Longrightarrow> nm \<in> set (map fst (vault_dir s))"
    by (metis domI dom_map_of_conv_image_fst set_map)
  have "\<forall>nm f. ends_with nm ''.md'' \<and> map_of (vault_dir s) nm = Some f \<and> read_ok env nm \<longrightarrow>
                SdkFilesUpload (''/notes/'' @ nm) (file_content f) \<in> set new"
    using n(3) m by blast
  moreover have "\<forall>r\<in>set new. \<exists>nm f. r = SdkFilesUpload (''/notes/'' @ nm) (file_content f) \<and>
                             map_of (vault_dir s) nm = Some f"
    using n(2) by blast
  ultimately show "\<exists>new. requests (snd (uploadToDropbox env s)) = requests s @ new \<and>
           (\<forall>r\<in>set new. \<exists>nm f. r = SdkFilesUpload (''/notes/'' @ nm) (file_content f) \<and>
                             map_of (vault_dir s) nm = Some f) \<and>
           (\<forall>nm f. ends_with nm ''.md'' \<and> map_of (vault_dir s) nm = Some f \<and> read_ok env nm \<longrightarrow>
                SdkFilesUpload (''/notes/'' @ nm) (file_content f) \<in> set new)"
    unfolding u using n(1) by blast
qed

text \<open>The phases of a full sync whose download loop comes to its end.\<close>

lemma sync_phases:
  assumes "dbx s" "localVaultPath s \<noteq> []" "download_phase_completes env s entries"
  obtains c1 s1 c2 s2 u s3 where
    "download_entries env entries
       (\<lparr>downloaded = 0, deleted = 0\<rparr>, send FilesListFolder (s\<lparr>sync_status := Syncing\<rparr>)) = Inr (c1, s1)"
    "delete_locals env (remote_ids entries) (c1, s1) = (c2, s2)"
    "uploadToDropbox env s2 = (u, s3)"
    "snd (sync env s) = s3\<lparr>sync_status := Idle\<rparr>"
    "dbx s1" "dbx s2"
proof -
  let ?s0 = "send FilesListFolder (s\<lparr>sync_status := Syncing\<rparr>)"
  let ?z = "\<lparr>downloaded = 0, deleted = 0\<rparr>"
  from assms(3) have l: "api_list env (length (requests s)) = SdkResolves entries"
    by (simp add: download_phase_completes_def)
  from assms(3) obtain c1 s1 where d: "download_entries env entries (?z, ?s0) = Inr (c1, s1)"
    by (auto simp: download_phase_completes_def split: sum.splits)
  obtain c2 s2 where del: "delete_locals env (remote_ids entries) (c1, s1) = (c2, s2)"
    by (cases "delete_locals env (remote_ids entries) (c1, s1)")
  obtain u s3 where up: "uploadToDropbox env s2 = (u, s3)" by (cases "uploadToDropbox env s2")
  have d1: "dbx s1" using download_entries_frame[OF d] assms(1) by (simp add: send_def)
  have d2: "dbx s2" using delete_locals_frame[of env "remote_ids entries" "(c1, s1)"] del d1 by simp
  have dl: "downloadFromDropbox env (s\<lparr>sync_status := Syncing\<rparr>) = (Returned c2, s2)"
    using assms(1) l d del by (simp add: downloadFromDropbox_def Let_def)
  have sy: "snd (sync env s) = s3\<lparr>sync_status := Idle\<rparr>"
    using assms(1,2) dl up by (simp add: sync_def)
  show ?thesis by (rule that[OF d del up sy d1 d2])
qed

lemma download_entries_split:
  assumes "download_entries env (pre @ e # post) acc = Inr acc'"
  obtains a1 a2 where "download_entries env pre acc = Inr a1" "download_entry env e a1 = Inr a2"
    "download_entries env post a2 = Inr acc'"
proof -
  from assms obtain a1 where p: "download_entries env pre acc = Inr a1"
    and r: "download_entries env (e # post) a1 = Inr acc'"
    by (auto simp: download_entries_append split: sum.splits)
  from r obtain a2 where "download_entry env e a1 = Inr a2" "download_entries env post a2 = Inr acc'"
    by (auto split: sum.splits)
  with p show ?thesis by (rule that)
qed

lemma notes_path_inj: "''/notes/'' @ a = ''/notes/'' @ b \<longleftrightarrow> a = b"
  by simp

lemma remote_id_of_name:
  assumes "e \<in> set entries" "is_md_file e"
  shows "file_noteId (entry_name e) \<in> set (remote_ids entries)"
  using assms by (auto simp: remote_ids_def file_noteId_def entry_noteId_def)

lemma absent_not_listed:
  assumes "file_noteId x \<notin> set (remote_ids entries)"
  shows "x \<notin> entry_name ` set (filter is_md_file entries)"
proof
  assume "x \<in> entry_name ` set (filter is_md_file entries)"
  then obtain e where "e \<in> set entries" "is_md_file e" "entry_name e = x" by auto
  with remote_id_of_name[of e entries] assms show False by simp
qed

lemma desktop_absent_file:
  assumes run: "dbx s" "localVaultPath s \<noteq> []" "download_phase_completes env s entries"
    and rd: "readdir_ok env"
    and dist: "distinct (map fst (vault_dir s))"
    and fl: "map_of (vault_dir s) x = Some f" "ends_with x ''.md''"
      "file_noteId x \<notin> set (remote_ids entries)"
  shows "now_at env x - ctimeMs f > 30000 \<and> unlink_ok env x \<Longrightarrow>
           map_of (vault_dir (snd (sync env s))) x = None \<and>
           (\<forall>body. SdkFilesUpload (''/notes/'' @ x) body \<notin> set (sent_since s (snd (sync env s))))"
    and "\<not> (now_at env x - ctimeMs f > 30000 \<and> unlink_ok env x) \<Longrightarrow>
           map_of (vault_dir (snd (sync env s))) x = Some f \<and>
           (read_ok env x \<longrightarrow>
              SdkFilesUpload (''/notes/'' @ x) (file_content f) \<in> set (sent_since s (snd (sync env s))))"
proof -
  let ?s0 = "send FilesListFolder (s\<lparr>sync_status := Syncing\<rparr>)"
  from run obtain c1 s1 c2 s2 u s3 where
    d: "download_entries env entries (\<lparr>downloaded = 0, deleted = 0\<rparr>, ?s0) = Inr (c1, s1)"
    and del: "delete_locals env (remote_ids entries) (c1, s1) = (c2, s2)"
    and up: "uploadToDropbox env s2 = (u, s3)"
    and sy: "snd (sync env s) = s3\<lparr>sync_status := Idle\<rparr>"
    and dx: "dbx s1" "dbx s2"
    by (rule sync_phases)
  from download_entries_frame[OF d] obtain new1 where
    n1: "requests s1 = requests ?s0 @ new1"
        "\<forall>r\<in>set new1. \<exists>e\<in>set entries. is_md_file e \<and> r = FilesDownload (path_lower e)"
    and keep: "\<forall>y. y \<notin> entry_name ` set (filter is_md_file entries) \<longrightarrow>
                 map_of (vault_dir s1) y = map_of (vault_dir ?s0) y"
    and dd: "distinct (map fst (vault_dir ?s0)) \<longrightarrow> distinct (map fst (vault_dir s1))"
    by blast
  have x1: "map_of (vault_dir s1) x = Some f"
    using keep absent_not_listed[OF fl(3)] fl(1) by (simp add: send_def)
  have d1: "distinct (map fst (vault_dir s1))" using dd dist by (simp add: send_def)
  have x2: "map_of (vault_dir s2) x =
              (if now_at env x - ctimeMs f > 30000 \<and> unlink_ok env x then None else Some f)"
    using delete_locals_at[OF d1 x1 rd, of "remote_ids entries" c1] del fl(2,3) by simp
  have r2: "requests s2 = requests s1"
    using delete_locals_frame[of env "remote_ids entries" "(c1, s1)"] del by simp
  from uploadToDropbox_frame[OF dx(2) rd] up obtain new3 where
    n3: "requests s3 = requests s2 @ new3"
        "\<forall>r\<in>set new3. \<exists>nm g. r = SdkFilesUpload (''/notes/'' @ nm) (file_content g) \<and>
                             map_of (vault_dir s2) nm = Some g"
        "\<forall>nm g. ends_with nm ''.md'' \<and> map_of (vault_dir s2) nm = Some g \<and> read_ok env nm \<longrightarrow>
                SdkFilesUpload (''/notes/'' @ nm) (file_content g) \<in> set new3"
    and v3: "vault_dir s3 = vault_dir s2"
    by auto
  have rq: "requests (snd (sync env s)) = requests s @ (FilesListFolder # new1 @ new3)"
    using sy n3(1) r2 n1(1) by (simp add: send_def)
  then have ss: "sent_since s (snd (sync env s)) = FilesListFolder # new1 @ new3"
    by (rule sent_since_append)
  have dirs: "vault_dir (snd (sync env s)) = vault_dir s2" using sy v3 by simp
  show "now_at env x - ctimeMs f > 30000 \<and> unlink_ok env x \<Longrightarrow>
           map_of (vault_dir (snd (sync env s))) x = None \<and>
           (\<forall>body. SdkFilesUpload (''/notes/'' @ x) body \<notin> set (sent_since s (snd (sync env s))))"
  proof -
    assume old: "now_at env x - ctimeMs f > 30000 \<and> unlink_ok env x"
    with x2 have gone: "map_of (vault_dir s2) x = None" by simp
    have "\<forall>body. SdkFilesUpload (''/notes/'' @ x) body \<notin> set (sent_since s (snd (sync env s)))"
    proof (intro allI notI)
      fix body assume "SdkFilesUpload (''/notes/'' @ x) body \<in> set (sent_since s (snd (sync env s)))"
      then have "SdkFilesUpload (''/notes/'' @ x) body \<in> set new1 \<or>
                 SdkFilesUpload (''/notes/'' @ x) body \<in> set new3"
        unfolding ss by auto
      then show False
      proof
        assume "SdkFilesUpload (''/notes/'' @ x) body \<in> set new1"
        with n1(2) show False by auto
      next
        assume "SdkFilesUpload (''/notes/'' @ x) body \<in> set new3"
        with n3(2) obtain nm g where "SdkFilesUpload (''/notes/'' @ x) body
            = SdkFilesUpload (''/notes/'' @ nm) (file_content g)" "map_of (vault_dir s2) nm = Some g"
          by blast
        with gone show False by simp
      qed
    qed
    with gone dirs show ?thesis by simp
  qed
  show "\<not> (now_at env x - ctimeMs f > 30000 \<and> unlink_ok env x) \<Longrightarrow>
           map_of (vault_dir (snd (sync env s))) x = Some f \<and>
           (read_ok env x \<longrightarrow>
              SdkFilesUpload (''/notes/'' @ x) (file_content f) \<in> set (sent_since s (snd (sync env s))))"
  proof -
    assume young: "\<not> (now_at env x - ctimeMs f > 30000 \<and> unlink_ok env x)"
    with x2 have kept: "map_of (vault_dir s2) x = Some f" by simp
    have "read_ok env x \<longrightarrow>
              SdkFilesUpload (''/notes/'' @ x) (file_content f) \<in> set (sent_since s (snd (sync env s)))"
      using n3(3) kept fl(2) unfolding ss by auto
    with kept dirs show ?thesis by simp
  qed
qed

lemma listing_split:
  assumes ld: "listing_distinct entries" and e: "e \<in> set entries" "is_md_file e"
  obtains pre post where "entries = pre @ e # post"
    "entry_name e \<notin> entry_name ` set (filter is_md_file pre)"
    "entry_name e \<notin> entry_name ` set (filter is_md_file post)"
    "\<forall>y\<in>set pre. is_md_file y \<longrightarrow> path_lower y \<noteq> path_lower e"
    "\<forall>y\<in>set post. is_md_file y \<longrightarrow> path_lower y \<noteq> path_lower e"
proof -
  from e(1) obtain pre post where sp: "entries = pre @ e # post" by (meson split_list)
  from ld have dn: "distinct (map entry_name (filter is_md_file (pre @ e # post)))"
    and dp: "distinct (map path_lower (filter is_md_file (pre @ e # post)))"
    unfolding listing_distinct_def sp by simp_all
  from dn e(2) have a: "entry_name e \<notin> entry_name ` set (filter is_md_file pre)"
    "entry_name e \<notin> entry_name ` set (filter is_md_file post)" by auto
  from dp e(2) have b: "path_lower e \<notin> path_lower ` set (filter is_md_file pre)"
    "path_lower e \<notin> path_lower ` set (filter is_md_file post)" by auto
  have c1: "\<forall>y\<in>set pre. is_md_file y \<longrightarrow> path_lower y \<noteq> path_lower e"
  proof (intro ballI impI notI)
    fix y assume "y \<in> set pre" "is_md_file y" and q: "path_lower y = path_lower e"
    then have "y \<in> set (filter is_md_file pre)" by simp
    then have "path_lower y \<in> path_lower ` set (filter is_md_file pre)" by (rule imageI)
    with q b(1) show False by simp
  qed
  have c2: "\<forall>y\<in>set post. is_md_file y \<longrightarrow> path_lower y \<noteq> path_lower e"
  proof (intro ballI impI notI)
    fix y assume "y \<in> set post" "is_md_file y" and q: "path_lower y = path_lower e"
    then have "y \<in> set (filter is_md_file post)" by simp
    then have "path_lower y \<in> path_lower ` set (filter is_md_file post)" by (rule imageI)
    with q b(2) show False by simp
  qed
  show ?thesis by (rule that[OF sp a c1 c2])
qed

text \<open>The state of the download loop around the turn of an entry whose file is there.\<close>

lemma desktop_entry_turn:
  assumes run: "dbx s" "localVaultPath s \<noteq> []" "download_phase_completes env s entries"
    and rd: "readdir_ok env"
    and ld: "listing_distinct entries"
    and dist: "distinct (map fst (vault_dir s))"
    and e: "e \<in> set entries" "is_md_file e"
    and fl: "map_of (vault_dir s) (entry_name e) = Some f"
  obtains ca sa cb sb new1 new2 new3 where
    "map_of (vault_dir sa) (entry_name e) = Some f"
    "want_download env sa e \<longleftrightarrow> want_download env s e"
    "download_entry env e (ca, sa) = Inr (cb, sb)"
    "requests sa = requests s @ FilesListFolder # new1"
    "FilesDownload (path_lower e) \<notin> set new1"
    "requests (snd (sync env s)) = requests sb @ new2 @ new3"
    "FilesDownload (path_lower e) \<notin> set new2" "FilesDownload (path_lower e) \<notin> set new3"
    "map_of (vault_dir (snd (sync env s))) (entry_name e) = map_of (vault_dir sb) (entry_name e)"
    "\<forall>g. map_of (vault_dir sb) (entry_name e) = Some g \<and> read_ok env (entry_name e) \<longrightarrow>
         SdkFilesUpload (''/notes/'' @ entry_name e) (file_content g) \<in> set new3"
proof -
  let ?x = "entry_name e"
  let ?s0 = "send FilesListFolder (s\<lparr>sync_status := Syncing\<rparr>)"
  let ?z = "\<lparr>downloaded = 0, deleted = 0\<rparr>"
  from run obtain c1 s1 c2 s2 u s3 where
    d: "download_entries env entries (?z, ?s0) = Inr (c1, s1)"
    and del: "delete_locals env (remote_ids entries) (c1, s1) = (c2, s2)"
    and up: "uploadToDropbox env s2 = (u, s3)"
    and sy: "snd (sync env s) = s3\<lparr>sync_status := Idle\<rparr>"
    and dx: "dbx s1" "dbx s2"
    by (rule sync_phases)
  from ld e obtain pre post where sp: "entries = pre @ e # post"
    and nm: "?x \<notin> entry_name ` set (filter is_md_file pre)"
      "?x \<notin> entry_name ` set (filter is_md_file post)"
    and pt: "\<forall>y\<in>set pre. is_md_file y \<longrightarrow> path_lower y \<noteq> path_lower e"
      "\<forall>y\<in>set post. is_md_file y \<longrightarrow> path_lower y \<noteq> path_lower e"
    by (rule listing_split)
  from d[unfolded sp] obtain a1 a2 where
    p1: "download_entries env pre (?z, ?s0) = Inr a1"
    and p2: "download_entry env e a1 = Inr a2"
    and p3: "download_entries env post a2 = Inr (c1, s1)"
    by (rule download_entries_split)
  obtain ca sa where a1: "a1 = (ca, sa)" by (cases a1)
  obtain cb sb where a2: "a2 = (cb, sb)" by (cases a2)
  from download_entries_frame[OF p1[unfolded a1]] obtain new1 where
    n1: "requests sa = requests ?s0 @ new1"
        "\<forall>r\<in>set new1. \<exists>y\<in>set pre. is_md_file y \<and> r = FilesDownload (path_lower y)"
    and k1: "\<forall>y. y \<notin> entry_name ` set (filter is_md_file pre) \<longrightarrow>
                 map_of (vault_dir sa) y = map_of (vault_dir ?s0) y"
    and dd1: "distinct (map fst (vault_dir ?s0)) \<longrightarrow> distinct (map fst (vault_dir sa))"
    by blast
  have xa: "map_of (vault_dir sa) ?x = Some f" using k1 nm(1) fl by (simp add: send_def)
  have wa: "want_download env sa e \<longleftrightarrow> want_download env s e"
    using xa fl by (simp add: want_download_def)
  have da: "distinct (map fst (vault_dir sa))" using dd1 dist by (simp add: send_def)
  have ra: "requests sa = requests s @ FilesListFolder # new1" using n1(1) by (simp add: send_def)
  have no1: "FilesDownload (path_lower e) \<notin> set new1"
  proof
    assume "FilesDownload (path_lower e) \<in> set new1"
    with n1(2) obtain y where "y \<in> set pre" "is_md_file y"
      "FilesDownload (path_lower e) = FilesDownload (path_lower y)" by blast
    with pt(1) show False by auto
  qed
  have db: "distinct (map fst (vault_dir sb))"
    using download_entry_frame(5)[OF p2[unfolded a1 a2]] da by simp
  from download_entries_frame[OF p3[unfolded a2]] obtain new2 where
    n2: "requests s1 = requests sb @ new2"
        "\<forall>r\<in>set new2. \<exists>y\<in>set post. is_md_file y \<and> r = FilesDownload (path_lower y)"
    and k2: "\<forall>y. y \<notin> entry_name ` set (filter is_md_file post) \<longrightarrow>
                 map_of (vault_dir s1) y = map_of (vault_dir sb) y"
    and dd2: "distinct (map fst (vault_dir sb)) \<longrightarrow> distinct (map fst (vault_dir s1))"
    by blast
  have x1: "map_of (vault_dir s1) ?x = map_of (vault_dir sb) ?x" using k2 nm(2) by simp
  have d1: "distinct (map fst (vault_dir s1))" using dd2 db by simp
  have no2: "FilesDownload (path_lower e) \<notin> set new2"
  proof
    assume "FilesDownload (path_lower e) \<in> set new2"
    with n2(2) obtain y where "y \<in> set post" "is_md_file y"
      "FilesDownload (path_lower e) = FilesDownload (path_lower y)" by blast
    with pt(2) show False by auto
  qed
  have idm: "file_noteId ?x \<in> set (remote_ids entries)" using e by (rule remote_id_of_name)
  have x2: "map_of (vault_dir s2) ?x = map_of (vault_dir s1) ?x"
  proof (cases "map_of (vault_dir s1) ?x")
    case None
    have "?x \<notin> fst ` set (vault_dir s1)" using None by (simp add: map_of_eq_None_iff)
    then have "?x \<notin> set (map fst (vault_dir s1))" by simp
    then have "map_of (vault_dir (snd (fold (delete_local env (remote_ids entries))
                 (map fst (vault_dir s1)) (c1, s1)))) ?x = map_of (vault_dir s1) ?x"
      using fold_delete_other[of ?x "map fst (vault_dir s1)" env "remote_ids entries" "(c1, s1)"]
      by simp
    with del rd show ?thesis by (simp add: delete_locals_def)
  next
    case (Some g)
    from delete_locals_at[OF d1 Some rd, of "remote_ids entries" c1] del idm Some
    show ?thesis by simp
  qed
  have r2: "requests s2 = requests s1"
    using delete_locals_frame[of env "remote_ids entries" "(c1, s1)"] del by simp
  from uploadToDropbox_frame[OF dx(2) rd] up obtain new3 where
    n3: "requests s3 = requests s2 @ new3"
        "\<forall>r\<in>set new3. \<exists>nm g. r = SdkFilesUpload (''/notes/'' @ nm) (file_content g) \<and>
                             map_of (vault_dir s2) nm = Some g"
        "\<forall>nm g. ends_with nm ''.md'' \<and> map_of (vault_dir s2) nm = Some g \<and> read_ok env nm \<longrightarrow>
                SdkFilesUpload (''/notes/'' @ nm) (file_content g) \<in> set new3"
    and v3: "vault_dir s3 = vault_dir s2"
    by auto
  have no3: "FilesDownload (path_lower e) \<notin> set new3" using n3(2) by auto
  have rq: "requests (snd (sync env s)) = requests sb @ new2 @ new3"
    using sy n3(1) r2 n2(1) by simp
  have xf: "map_of (vault_dir (snd (sync env s))) ?x = map_of (vault_dir sb) ?x"
    using sy v3 x2 x1 by simp
  have md: "ends_with ?x ''.md''" using e(2) by (simp add: is_md_file_def)
  have upl: "\<forall>g. map_of (vault_dir sb) ?x = Some g \<and> read_ok env ?x \<longrightarrow>
         SdkFilesUpload (''/notes/'' @ ?x) (file_content g) \<in> set new3"
    using n3(3) md x2 x1 by simp
  show ?thesis
    by (rule that[OF xa wa p2[unfolded a1 a2] ra no1 rq no2 no3 xf upl])
qed

lemma desktop_within_tolerance:
  assumes run: "dbx s" "localVaultPath s \<noteq> []" "download_phase_completes env s entries"
    and rd: "readdir_ok env"
    and ld: "listing_distinct entries"
    and dist: "distinct (map fst (vault_dir s))"
    and e: "e \<in> set entries" "is_md_file e"
    and fl: "map_of (vault_dir s) (entry_name e) = Some f" "read_ok env (entry_name e)"
    and times: "local_updated env (file_content f) = Some (Some l)"
      "client_modified e = Some t" "remote_time env t = Some r" "r - l < 2000"
  shows "FilesDownload (path_lower e) \<notin> set (sent_since s (snd (sync env s)))"
    and "map_of (vault_dir (snd (sync env s))) (entry_name e) = Some f"
    and "SdkFilesUpload (''/notes/'' @ entry_name e) (file_content f)
           \<in> set (sent_since s (snd (sync env s)))"
proof -
  from run rd ld dist e fl(1) obtain ca sa cb sb new1 new2 new3 where
    t: "map_of (vault_dir sa) (entry_name e) = Some f"
       "want_download env sa e \<longleftrightarrow> want_download env s e"
       "download_entry env e (ca, sa) = Inr (cb, sb)"
       "requests sa = requests s @ FilesListFolder # new1"
       "FilesDownload (path_lower e) \<notin> set new1"
       "requests (snd (sync env s)) = requests sb @ new2 @ new3"
       "FilesDownload (path_lower e) \<notin> set new2" "FilesDownload (path_lower e) \<notin> set new3"
       "map_of (vault_dir (snd (sync env s))) (entry_name e) = map_of (vault_dir sb) (entry_name e)"
       "\<forall>g. map_of (vault_dir sb) (entry_name e) = Some g \<and> read_ok env (entry_name e) \<longrightarrow>
         SdkFilesUpload (''/notes/'' @ entry_name e) (file_content g) \<in> set new3"
    by (rule desktop_entry_turn)
  have "want_download env s e \<longleftrightarrow> r - l \<ge> 2000"
    using fl times(1-3) by (rule want_download_times)
  with times(4) t(2) have nw: "\<not> (is_md_file e \<and> want_download env sa e)" by simp
  have "download_entry env e (ca, sa) = Inr (ca, sa)" using nw by (rule download_entry_skip)
  with t(3) have sb: "sb = sa" by simp
  have rq: "requests (snd (sync env s)) = requests s @ (FilesListFolder # new1 @ new2 @ new3)"
    using t(6) t(4) sb by simp
  then have ss: "sent_since s (snd (sync env s)) = FilesListFolder # new1 @ new2 @ new3"
    by (rule sent_since_append)
  show "FilesDownload (path_lower e) \<notin> set (sent_since s (snd (sync env s)))"
    unfolding ss using t(5,7,8) by simp
  show "map_of (vault_dir (snd (sync env s))) (entry_name e) = Some f"
    using t(9) sb t(1) by simp
  show "SdkFilesUpload (''/notes/'' @ entry_name e) (file_content f)
           \<in> set (sent_since s (snd (sync env s)))"
    unfolding ss using t(10) sb t(1) fl(2) by simp
qed

lemma desktop_remote_newer:
  assumes run: "dbx s" "localVaultPath s \<noteq> []" "download_phase_completes env s entries"
    and rd: "readdir_ok env"
    and ld: "listing_distinct entries"
    and dist: "distinct (map fst (vault_dir s))"
    and e: "e \<in> set entries" "is_md_file e"
    and fl: "map_of (vault_dir s) (entry_name e) = Some f" "read_ok env (entry_name e)"
    and times: "local_updated env (file_content f) = Some (Some l)"
      "client_modified e = Some t" "remote_time env t = Some r" "r - l \<ge> 2000"
  shows "\<exists>k \<ge> length (requests s). k < length (requests (snd (sync env s))) \<and>
           requests (snd (sync env s)) ! k = FilesDownload (path_lower e) \<and>
           (\<forall>body. api_download env k = SdkResolves (Some body) \<longrightarrow>
              map_option file_content (map_of (vault_dir (snd (sync env s))) (entry_name e)) = Some body \<and>
              SdkFilesUpload (''/notes/'' @ entry_name e) body \<in> set (sent_since s (snd (sync env s)))) \<and>
           (api_download env k = SdkResolves None \<longrightarrow>
              map_of (vault_dir (snd (sync env s))) (entry_name e) = Some f)"
proof -
  let ?x = "entry_name e"
  from run rd ld dist e fl(1) obtain ca sa cb sb new1 new2 new3 where
    t: "map_of (vault_dir sa) ?x = Some f"
       "want_download env sa e \<longleftrightarrow> want_download env s e"
       "download_entry env e (ca, sa) = Inr (cb, sb)"
       "requests sa = requests s @ FilesListFolder # new1"
       "FilesDownload (path_lower e) \<notin> set new1"
       "requests (snd (sync env s)) = requests sb @ new2 @ new3"
       "FilesDownload (path_lower e) \<notin> set new2" "FilesDownload (path_lower e) \<notin> set new3"
       "map_of (vault_dir (snd (sync env s))) ?x = map_of (vault_dir sb) ?x"
       "\<forall>g. map_of (vault_dir sb) ?x = Some g \<and> read_ok env ?x \<longrightarrow>
         SdkFilesUpload (''/notes/'' @ ?x) (file_content g) \<in> set new3"
    by (rule desktop_entry_turn)
  have "want_download env s e \<longleftrightarrow> r - l \<ge> 2000"
    using fl times(1-3) by (rule want_download_times)
  with times(4) t(2) have w: "want_download env sa e" by simp
  let ?k = "length (requests sa)"
  let ?d = "FilesDownload (path_lower e)"
  from download_entry_fetch[OF e(2) w, of ca] t(3)
  consider (none) "api_download env ?k = SdkResolves None" "sb = send ?d sa"
    | (some) body where "api_download env ?k = SdkResolves (Some body)"
        "sb = (send ?d sa)\<lparr>vault_dir := AList.update ?x
                 \<lparr>file_content = body, ctimeMs = ctime_written env ?x\<rparr> (vault_dir sa)\<rparr>"
    by auto
  then have main: "requests sb = requests sa @ [?d] \<and>
      (\<forall>body. api_download env ?k = SdkResolves (Some body) \<longrightarrow>
         map_option file_content (map_of (vault_dir sb) ?x) = Some body) \<and>
      (api_download env ?k = SdkResolves None \<longrightarrow> map_of (vault_dir sb) ?x = Some f)"
  proof cases
    case none
    with t(1) show ?thesis by (simp add: send_def)
  next
    case (some body)
    then show ?thesis by (simp add: send_def update_conv')
  qed
  have rq: "requests (snd (sync env s)) = requests sa @ ?d # new2 @ new3"
    using t(6) main by simp
  have k1: "?k \<ge> length (requests s)" using t(4) by simp
  have k2: "?k < length (requests (snd (sync env s)))" unfolding rq by simp
  have k3: "requests (snd (sync env s)) ! ?k = ?d" unfolding rq by simp
  have ss: "sent_since s (snd (sync env s)) = FilesListFolder # new1 @ ?d # new2 @ new3"
    using rq t(4) by (intro sent_since_append) simp
  have k4: "\<forall>body. api_download env ?k = SdkResolves (Some body) \<longrightarrow>
              map_option file_content (map_of (vault_dir (snd (sync env s))) ?x) = Some body \<and>
              SdkFilesUpload (''/notes/'' @ ?x) body \<in> set (sent_since s (snd (sync env s)))"
  proof (intro allI impI)
    fix body assume b: "api_download env ?k = SdkResolves (Some body)"
    with main have c: "map_option file_content (map_of (vault_dir sb) ?x) = Some body" by blast
    then obtain g where g: "map_of (vault_dir sb) ?x = Some g" "file_content g = body" by auto
    with t(10) fl(2) have "SdkFilesUpload (''/notes/'' @ ?x) body \<in> set new3" by auto
    with c t(9) show "map_option file_content (map_of (vault_dir (snd (sync env s))) ?x) = Some body \<and>
              SdkFilesUpload (''/notes/'' @ ?x) body \<in> set (sent_since s (snd (sync env s)))"
      unfolding ss by simp
  qed
  have k5: "api_download env ?k = SdkResolves None \<longrightarrow>
              map_of (vault_dir (snd (sync env s))) ?x = Some f"
    using main t(9) by simp
  from k1 k2 k3 k4 k5 show ?thesis by blast
qed

section \<open>The grace window of the two sync engines\<close>

text \<open>
  Claim C2, as the code has it. In a pass of the mobile service that completes, a local note
  that is not among the remote ids and was created more than 30 seconds before the pass
  leaves the notes and is not uploaded; one created within the last 30 seconds is kept and
  uploaded as it is (the listing being consistent and without an entry of the note's file
  name, the local ids distinct). In a full sync of the desktop manager whose download loop
  comes to its end, what counts is the file and not the note: a local note file that is not
  among the remote ids is removed, and not uploaded, when the last change of the file
  (\<open>ctime\<close>) is more than 30 seconds old and the file can be removed; otherwise it stays and
  is uploaded, whatever the creation time of the note in it.
\<close>

theorem absent_note_grace_window:
  "(authenticated env \<and> list_folder env = ListOk es \<and>
      res_error (syncWithRemote env ls) = None \<and>
      n \<in> set ls \<and> m_id n \<notin> set (remote_ids es) \<and> is_old env n \<longrightarrow>
      m_id n \<notin> m_id ` set (res_notes (syncWithRemote env ls)) \<and>
      (\<forall>body. Upload (note_path (m_id n)) body \<notin> set (res_calls (syncWithRemote env ls)))) \<and>
   (\<forall>c. authenticated env \<and> list_folder env = ListOk es \<and>
      res_error (syncWithRemote env ls) = None \<and>
      n \<in> set ls \<and> m_id n \<notin> set (remote_ids es) \<and>
      getTime env (m_created n) = Some c \<and> date_now env - grace_ms \<le> c \<and>
      distinct (map m_id ls) \<and> find (\<lambda>e. entry_name e = m_id n @ ''.md'') es = None \<and>
      remote_consistent env es \<longrightarrow>
      n \<in> set (res_notes (syncWithRemote env ls)) \<and>
      Upload (note_path (m_id n)) (m_serializeNote n) \<in> set (res_calls (syncWithRemote env ls))) \<and>
   (dbx s \<and> localVaultPath s \<noteq> [] \<and> download_phase_completes rt s entries \<and>
      readdir_ok rt \<and> distinct (map fst (vault_dir s)) \<and>
      map_of (vault_dir s) x = Some f \<and> ends_with x ''.md'' \<and>
      file_noteId x \<notin> set (remote_ids entries) \<longrightarrow>
      (now_at rt x - ctimeMs f > 30000 \<and> unlink_ok rt x \<longrightarrow>
         map_of (vault_dir (snd (sync rt s))) x = None \<and>
         (\<forall>body. SdkFilesUpload (''/notes/'' @ x) body \<notin> set (sent_since s (snd (sync rt s))))) \<and>
      (\<not> (now_at rt x - ctimeMs f > 30000 \<and> unlink_ok rt x) \<longrightarrow>
         map_of (vault_dir (snd (sync rt s))) x = Some f \<and>
         (read_ok rt x \<longrightarrow>
            SdkFilesUpload (''/notes/'' @ x) (file_content f) \<in> set (sent_since s (snd (sync rt s))))))"
proof (intro conjI allI impI)
  assume a: "authenticated env \<and> list_folder env = ListOk es \<and>
      res_error (syncWithRemote env ls) = None \<and>
      n \<in> set ls \<and> m_id n \<notin> set (remote_ids es) \<and> is_old env n"
  then show "m_id n \<notin> m_id ` set (res_notes (syncWithRemote env ls))"
    using mobile_old_removed(1)[of env es ls n] by simp
  fix body
  from a show "Upload (note_path (m_id n)) body \<notin> set (res_calls (syncWithRemote env ls))"
    using mobile_old_removed(2)[of env es ls n body] by simp
next
  fix c
  assume a: "authenticated env \<and> list_folder env = ListOk es \<and>
      res_error (syncWithRemote env ls) = None \<and>
      n \<in> set ls \<and> m_id n \<notin> set (remote_ids es) \<and>
      getTime env (m_created n) = Some c \<and> date_now env - grace_ms \<le> c \<and>
      distinct (map m_id ls) \<and> find (\<lambda>e. entry_name e = m_id n @ ''.md'') es = None \<and>
      remote_consistent env es"
  then show "n \<in> set (res_notes (syncWithRemote env ls))"
    using mobile_young_uploaded(1)[of env es ls n c] by simp
  from a show "Upload (note_path (m_id n)) (m_serializeNote n) \<in> set (res_calls (syncWithRemote env ls))"
    using mobile_young_uploaded(2)[of env es ls n c] by simp
next
  assume a: "dbx s \<and> localVaultPath s \<noteq> [] \<and> download_phase_completes rt s entries \<and>
      readdir_ok rt \<and> distinct (map fst (vault_dir s)) \<and>
      map_of (vault_dir s) x = Some f \<and> ends_with x ''.md'' \<and>
      file_noteId x \<notin> set (remote_ids entries)"
  assume o: "now_at rt x - ctimeMs f > 30000 \<and> unlink_ok rt x"
  from a o have r: "map_of (vault_dir (snd (sync rt s))) x = None \<and>
         (\<forall>body. SdkFilesUpload (''/notes/'' @ x) body \<notin> set (sent_since s (snd (sync rt s))))"
    using desktop_absent_file(1)[of s rt entries x f] by simp
  from r show "map_of (vault_dir (snd (sync rt s))) x = None" by simp
  fix body
  from r show "SdkFilesUpload (''/notes/'' @ x) body \<notin> set (sent_since s (snd (sync rt s)))" by simp
next
  assume a: "dbx s \<and> localVaultPath s \<noteq> [] \<and> download_phase_completes rt s entries \<and>
      readdir_ok rt \<and> distinct (map fst (vault_dir s)) \<and>
      map_of (vault_dir s) x = Some f \<and> ends_with x ''.md'' \<and>
      file_noteId x \<notin> set (remote_ids entries)"
  assume y: "\<not> (now_at rt x - ctimeMs f > 30000 \<and> unlink_ok rt x)"
  from a y have r: "map_of (vault_dir (snd (sync rt s))) x = Some f \<and>
         (read_ok rt x \<longrightarrow>
            SdkFilesUpload (''/notes/'' @ x) (file_content f) \<in> set (sent_since s (snd (sync rt s))))"
    using desktop_absent_file(2)[of s rt entries x f] by simp
  from r show "map_of (vault_dir (snd (sync rt s))) x = Some f" by simp
  assume "read_ok rt x"
  with r show "SdkFilesUpload (''/notes/'' @ x) (file_content f) \<in> set (sent_since s (snd (sync rt s)))"
    by simp
qed

text \<open>The theorem on two passes at \<open>2024-03-01T10:00:00.000Z\<close> with an empty listing: the
  mobile note created on the first of January leaves the notes, and so does the desktop file
  whose last change is a minute old; nothing is uploaded.\<close>

theorem absent_note_grace_window_witness:
  "authenticated (ex_mobile []) \<and> list_folder (ex_mobile []) = ListOk [] \<and>
   res_error (syncWithRemote (ex_mobile [])
      [ex_mnote ''id1'' ''2024-01-01T00:00:00.000Z'' ''2024-03-01T10:00:00.000Z'']) = None \<and>
   is_old (ex_mobile []) (ex_mnote ''id1'' ''2024-01-01T00:00:00.000Z'' ''2024-03-01T10:00:00.000Z'') \<and>
   ''id1'' \<notin> m_id ` set (res_notes (syncWithRemote (ex_mobile [])
      [ex_mnote ''id1'' ''2024-01-01T00:00:00.000Z'' ''2024-03-01T10:00:00.000Z''])) \<and>
   (\<forall>body. Upload (note_path ''id1'') body \<notin> set (res_calls (syncWithRemote (ex_mobile [])
      [ex_mnote ''id1'' ''2024-01-01T00:00:00.000Z'' ''2024-03-01T10:00:00.000Z'']))) \<and>
   download_phase_completes (ex_full_sync []) (ex_desktop [] [(''id1.md'', ex_file (ex_now - 60000))]) [] \<and>
   now_at (ex_full_sync []) ''id1.md'' - ctimeMs (ex_file (ex_now - 60000)) > 30000 \<and>
   map_of (vault_dir (snd (sync (ex_full_sync [])
      (ex_desktop [] [(''id1.md'', ex_file (ex_now - 60000))])))) ''id1.md'' = None \<and>
   (\<forall>body. SdkFilesUpload ''/notes/id1.md'' body \<notin> set (sent_since
      (ex_desktop [] [(''id1.md'', ex_file (ex_now - 60000))])
      (snd (sync (ex_full_sync []) (ex_desktop [] [(''id1.md'', ex_file (ex_now - 60000))])))))"
proof -
  let ?env = "ex_mobile []"
  let ?n = "ex_mnote ''id1'' ''2024-01-01T00:00:00.000Z'' ''2024-03-01T10:00:00.000Z''"
  let ?rt = "ex_full_sync []"
  let ?f = "ex_file (ex_now - 60000)"
  let ?s = "ex_desktop [] [(''id1.md'', ?f)]"
  have m1: "authenticated ?env" "list_folder ?env = ListOk []"
    by (simp_all add: authenticated_def ex_mobile_def)
  have m2: "res_error (syncWithRemote ?env [?n]) = None" by code_simp
  have m3: "?n \<in> set [?n]" "m_id ?n \<notin> set (remote_ids [])" by (simp_all add: remote_ids_def)
  have m4: "is_old ?env ?n" by code_simp
  have i: "m_id ?n = ''id1''" by (simp add: ex_mnote_def)
  have d1: "dbx ?s" "localVaultPath ?s \<noteq> []" "distinct (map fst (vault_dir ?s))"
    "map_of (vault_dir ?s) ''id1.md'' = Some ?f"
    by (simp_all add: ex_desktop_def)
  have d2: "download_phase_completes ?rt ?s []"
    by (simp add: download_phase_completes_def ex_full_sync_def ex_runtime_def ex_desktop_def send_def)
  have d3: "readdir_ok ?rt" "unlink_ok ?rt ''id1.md''"
    by (simp_all add: ex_full_sync_def ex_runtime_def)
  have d4: "ends_with ''id1.md'' ''.md''" by code_simp
  have d5: "file_noteId ''id1.md'' \<notin> set (remote_ids [])" by (simp add: remote_ids_def)
  have d6: "now_at ?rt ''id1.md'' - ctimeMs ?f > 30000"
    by (simp add: ex_full_sync_def ex_runtime_def ex_file_def)
  have p: "''/notes/'' @ ''id1.md'' = ''/notes/id1.md''" by simp
  show ?thesis
    using absent_note_grace_window[of ?env "[]" "[?n]" ?n ?s ?rt "[]" "''id1.md''" ?f]
      m1 m2 m3 m4 i d1 d2 d3 d4 d5 d6
    unfolding p by simp
qed

text \<open>Claim C2 as stated fails for the desktop manager: the note in the file \<open>id1.md\<close>
  was created on the first of January, two months before the pass, and is not in the remote
  listing; the file was last changed five seconds before the pass, so the pass keeps it and
  uploads it.\<close>

theorem desktop_keeps_old_note_counterexample:
  "(\<exists>r. parseNote line_matter ex_clock ex_uuidv4 (file_content (ex_file (ex_now - 5000))) = Inr r \<and>
        raw_created r = YStr ''2024-01-01T00:00:00.000Z'') \<and>
   ex_time ''2024-01-01T00:00:00.000Z'' = Some 1704067200000 \<and>
   1704067200000 < ex_now - 30000 \<and>
   file_noteId ''id1.md'' \<notin> set (remote_ids []) \<and>
   map_of (vault_dir (snd (sync (ex_full_sync [])
      (ex_desktop [] [(''id1.md'', ex_file (ex_now - 5000))])))) ''id1.md''
     = Some (ex_file (ex_now - 5000)) \<and>
   requests (snd (sync (ex_full_sync []) (ex_desktop [] [(''id1.md'', ex_file (ex_now - 5000))])))
     = [FilesListFolder, SdkFilesUpload ''/notes/id1.md'' scenario_text]"
proof -
  have a: "parseNote line_matter ex_clock ex_uuidv4 (file_content (ex_file (ex_now - 5000)))
             = Inr \<lparr>raw_id = YStr ''id1'', raw_title = YStr ''A'', raw_color = YStr ''#FFE066'',
                    raw_pinned = False, raw_created = YStr ''2024-01-01T00:00:00.000Z'',
                    raw_updated = YStr ''2024-03-01T10:00:00.000Z'', raw_reminders = [],
                    raw_tags = [], raw_encrypted = False, raw_content = ''hello''\<rparr>"
    by code_simp
  have b: "ex_time ''2024-01-01T00:00:00.000Z'' = Some 1704067200000" by (simp add: ex_time_def)
  have c: "1704067200000 < ex_now - 30000" by (simp add: ex_now_def)
  have d: "file_noteId ''id1.md'' \<notin> set (remote_ids [])" by (simp add: remote_ids_def)
  have e: "ends_with ''id1.md'' ''.md''" by code_simp
  have s: "sync (ex_full_sync []) (ex_desktop [] [(''id1.md'', ex_file (ex_now - 5000))])
             = (\<lparr>result_uploaded = 1, result_downloaded = 0, result_errors = 0\<rparr>,
                (ex_desktop [] [(''id1.md'', ex_file (ex_now - 5000))])
                  \<lparr>requests := [FilesListFolder, SdkFilesUpload ''/notes/id1.md'' scenario_text]\<rparr>)"
    using e
    by (simp add: sync_def downloadFromDropbox_def download_phase_completes_def
        delete_locals_def delete_local_def uploadToDropbox_def upload_file_def
        ex_full_sync_def ex_runtime_def ex_desktop_def ex_file_def ex_now_def send_def
        remote_ids_def file_noteId_def Let_def)
  from a b c d show ?thesis unfolding s by (simp add: ex_desktop_def)
qed

section \<open>The tolerance window of the two sync engines\<close>

text \<open>
  Claim C3, as the code has it. In a pass of the mobile service that completes, over a
  consistent listing and local notes with distinct ids, a note that is in the listing is
  downloaded when the remote time is more than 2 seconds above its \<open>updated\<close> time, and what
  the parser reads from the download replaces the local note (the widget id apart); when the
  two times differ by less than 2 seconds the pass sends neither a download nor an upload
  for the note and keeps it. In a full sync of the desktop manager whose download loop comes
  to its end, over a listing with distinct names and paths, a note file that is in the
  listing is downloaded, and overwritten with what the download returns, when the remote
  time is 2 seconds or more above the \<open>updated\<close> time in the local file; when it is less than
  2 seconds above (within the tolerance, or the local file is the newer one) the file is not
  downloaded and stays as it is. In both cases the upload that ends the pass sends the file
  as it then is: the desktop pass uploads every note file, also within the tolerance.
\<close>

theorem tolerance_window:
  "(\<forall>l rt. authenticated env \<and> list_folder env = ListOk es \<and>
      res_error (syncWithRemote env ls) = None \<and>
      remote_consistent env es \<and> distinct (map m_id ls) \<and>
      n \<in> set ls \<and> e \<in> set es \<and> is_md_file e \<and> entry_noteId e = m_id n \<and>
      getTime env (m_updated n) = Some l \<and> date_of env (client_modified e) = Some rt \<and>
      rt > l + 2000 \<longrightarrow>
      Download (path_lower e) \<in> set (res_calls (syncWithRemote env ls)) \<and>
      (\<forall>body p. download env (path_lower e) = DlOk body \<and> parse env body (entry_name e) = Some p \<longrightarrow>
         keep_widget (Some n) p \<in> set (res_notes (syncWithRemote env ls)) \<and>
         (\<forall>x \<in> set (res_notes (syncWithRemote env ls)). m_id x = m_id n \<longrightarrow> x = keep_widget (Some n) p))) \<and>
   (\<forall>l rt. authenticated env \<and> list_folder env = ListOk es \<and>
      res_error (syncWithRemote env ls) = None \<and>
      remote_consistent env es \<and> distinct (map m_id ls) \<and>
      n \<in> set ls \<and> e \<in> set es \<and> is_md_file e \<and> entry_noteId e = m_id n \<and>
      entry_name e = m_id n @ ''.md'' \<and>
      getTime env (m_updated n) = Some l \<and> date_of env (client_modified e) = Some rt \<and>
      \<bar>rt - l\<bar> < 2000 \<longrightarrow>
      Download (path_lower e) \<notin> set (res_calls (syncWithRemote env ls)) \<and>
      (\<forall>body. Upload (note_path (m_id n)) body \<notin> set (res_calls (syncWithRemote env ls))) \<and>
      n \<in> set (res_notes (syncWithRemote env ls))) \<and>
   (\<forall>l t r. dbx s \<and> localVaultPath s \<noteq> [] \<and> download_phase_completes denv s entries \<and>
      readdir_ok denv \<and> listing_distinct entries \<and> distinct (map fst (vault_dir s)) \<and>
      d \<in> set entries \<and> is_md_file d \<and>
      map_of (vault_dir s) (entry_name d) = Some f \<and> read_ok denv (entry_name d) \<and>
      local_updated denv (file_content f) = Some (Some l) \<and>
      client_modified d = Some t \<and> remote_time denv t = Some r \<and> r - l \<ge> 2000 \<longrightarrow>
      (\<exists>k \<ge> length (requests s). k < length (requests (snd (sync denv s))) \<and>
         requests (snd (sync denv s)) ! k = FilesDownload (path_lower d) \<and>
         (\<forall>body. api_download denv k = SdkResolves (Some body) \<longrightarrow>
            map_option file_content (map_of (vault_dir (snd (sync denv s))) (entry_name d)) = Some body \<and>
            SdkFilesUpload (''/notes/'' @ entry_name d) body \<in> set (sent_since s (snd (sync denv s)))) \<and>
         (api_download denv k = SdkResolves None \<longrightarrow>
            map_of (vault_dir (snd (sync denv s))) (entry_name d) = Some f))) \<and>
   (\<forall>l t r. dbx s \<and> localVaultPath s \<noteq> [] \<and> download_phase_completes denv s entries \<and>
      readdir_ok denv \<and> listing_distinct entries \<and> distinct (map fst (vault_dir s)) \<and>
      d \<in> set entries \<and> is_md_file d \<and>
      map_of (vault_dir s) (entry_name d) = Some f \<and> read_ok denv (entry_name d) \<and>
      local_updated denv (file_content f) = Some (Some l) \<and>
      client_modified d = Some t \<and> remote_time denv t = Some r \<and> r - l < 2000 \<longrightarrow>
      FilesDownload (path_lower d) \<notin> set (sent_since s (snd (sync denv s))) \<and>
      map_of (vault_dir (snd (sync denv s))) (entry_name d) = Some f \<and>
      SdkFilesUpload (''/notes/'' @ entry_name d) (file_content f)
        \<in> set (sent_since s (snd (sync denv s))))"
proof (intro conjI)
  show "\<forall>l rt. authenticated env \<and> list_folder env = ListOk es \<and>
      res_error (syncWithRemote env ls) = None \<and>
      remote_consistent env es \<and> distinct (map m_id ls) \<and>
      n \<in> set ls \<and> e \<in> set es \<and> is_md_file e \<and> entry_noteId e = m_id n \<and>
      getTime env (m_updated n) = Some l \<and> date_of env (client_modified e) = Some rt \<and>
      rt > l + 2000 \<longrightarrow>
      Download (path_lower e) \<in> set (res_calls (syncWithRemote env ls)) \<and>
      (\<forall>body p. download env (path_lower e) = DlOk body \<and> parse env body (entry_name e) = Some p \<longrightarrow>
         keep_widget (Some n) p \<in> set (res_notes (syncWithRemote env ls)) \<and>
         (\<forall>x \<in> set (res_notes (syncWithRemote env ls)). m_id x = m_id n \<longrightarrow> x = keep_widget (Some n) p))"
  proof (intro allI impI)
    fix l rt
    assume a: "authenticated env \<and> list_folder env = ListOk es \<and>
      res_error (syncWithRemote env ls) = None \<and>
      remote_consistent env es \<and> distinct (map m_id ls) \<and>
      n \<in> set ls \<and> e \<in> set es \<and> is_md_file e \<and> entry_noteId e = m_id n \<and>
      getTime env (m_updated n) = Some l \<and> date_of env (client_modified e) = Some rt \<and>
      rt > l + 2000"
    have 1: "Download (path_lower e) \<in> set (res_calls (syncWithRemote env ls))"
      using a mobile_remote_newer(1)[of env es ls n e l rt] by simp
    have 2: "\<forall>body p. download env (path_lower e) = DlOk body \<and> parse env body (entry_name e) = Some p \<longrightarrow>
         keep_widget (Some n) p \<in> set (res_notes (syncWithRemote env ls)) \<and>
         (\<forall>x \<in> set (res_notes (syncWithRemote env ls)). m_id x = m_id n \<longrightarrow> x = keep_widget (Some n) p)"
    proof (intro allI impI)
      fix body p
      assume b: "download env (path_lower e) = DlOk body \<and> parse env body (entry_name e) = Some p"
      show "keep_widget (Some n) p \<in> set (res_notes (syncWithRemote env ls)) \<and>
         (\<forall>x \<in> set (res_notes (syncWithRemote env ls)). m_id x = m_id n \<longrightarrow> x = keep_widget (Some n) p)"
        using a b mobile_remote_newer(2)[of env es ls n e l rt body p] by simp
    qed
    from 1 2 show "Download (path_lower e) \<in> set (res_calls (syncWithRemote env ls)) \<and>
      (\<forall>body p. download env (path_lower e) = DlOk body \<and> parse env body (entry_name e) = Some p \<longrightarrow>
         keep_widget (Some n) p \<in> set (res_notes (syncWithRemote env ls)) \<and>
         (\<forall>x \<in> set (res_notes (syncWithRemote env ls)). m_id x = m_id n \<longrightarrow> x = keep_widget (Some n) p))"
      by (rule conjI)
  qed
  show "\<forall>l rt. authenticated env \<and> list_folder env = ListOk es \<and>
      res_error (syncWithRemote env ls) = None \<and>
      remote_consistent env es \<and> distinct (map m_id ls) \<and>
      n \<in> set ls \<and> e \<in> set es \<and> is_md_file e \<and> entry_noteId e = m_id n \<and>
      entry_name e = m_id n @ ''.md'' \<and>
      getTime env (m_updated n) = Some l \<and> date_of env (client_modified e) = Some rt \<and>
      \<bar>rt - l\<bar> < 2000 \<longrightarrow>
      Download (path_lower e) \<notin> set (res_calls (syncWithRemote env ls)) \<and>
      (\<forall>body. Upload (note_path (m_id n)) body \<notin> set (res_calls (syncWithRemote env ls))) \<and>
      n \<in> set (res_notes (syncWithRemote env ls))"
  proof (intro allI impI)
    fix l rt
    assume a: "authenticated env \<and> list_folder env = ListOk es \<and>
      res_error (syncWithRemote env ls) = None \<and>
      remote_consistent env es \<and> distinct (map m_id ls) \<and>
      n \<in> set ls \<and> e \<in> set es \<and> is_md_file e \<and> entry_noteId e = m_id n \<and>
      entry_name e = m_id n @ ''.md'' \<and>
      getTime env (m_updated n) = Some l \<and> date_of env (client_modified e) = Some rt \<and>
      \<bar>rt - l\<bar> < 2000"
    have 1: "Download (path_lower e) \<notin> set (res_calls (syncWithRemote env ls))"
      using a mobile_within_tolerance(1)[of env es ls n e l rt] by simp
    have 2: "\<forall>body. Upload (note_path (m_id n)) body \<notin> set (res_calls (syncWithRemote env ls))"
      using a mobile_within_tolerance(2)[of env es ls n e l rt] by simp
    have 3: "n \<in> set (res_notes (syncWithRemote env ls))"
      using a mobile_within_tolerance(3)[of env es ls n e l rt] by simp
    from 1 2 3 show "Download (path_lower e) \<notin> set (res_calls (syncWithRemote env ls)) \<and>
      (\<forall>body. Upload (note_path (m_id n)) body \<notin> set (res_calls (syncWithRemote env ls))) \<and>
      n \<in> set (res_notes (syncWithRemote env ls))" by simp
  qed
  show "\<forall>l t r. dbx s \<and> localVaultPath s \<noteq> [] \<and> download_phase_completes denv s entries \<and>
      readdir_ok denv \<and> listing_distinct entries \<and> distinct (map fst (vault_dir s)) \<and>
      d \<in> set entries \<and> is_md_file d \<and>
      map_of (vault_dir s) (entry_name d) = Some f \<and> read_ok denv (entry_name d) \<and>
      local_updated denv (file_content f) = Some (Some l) \<and>
      client_modified d = Some t \<and> remote_time denv t = Some r \<and> r - l \<ge> 2000 \<longrightarrow>
      (\<exists>k \<ge> length (requests s). k < length (requests (snd (sync denv s))) \<and>
         requests (snd (sync denv s)) ! k = FilesDownload (path_lower d) \<and>
         (\<forall>body. api_download denv k = SdkResolves (Some body) \<longrightarrow>
            map_option file_content (map_of (vault_dir (snd (sync denv s))) (entry_name d)) = Some body \<and>
            SdkFilesUpload (''/notes/'' @ entry_name d) body \<in> set (sent_since s (snd (sync denv s)))) \<and>
         (api_download denv k = SdkResolves None \<longrightarrow>
            map_of (vault_dir (snd (sync denv s))) (entry_name d) = Some f))"
  proof (intro allI impI)
    fix l t r
    assume a: "dbx s \<and> localVaultPath s \<noteq> [] \<and> download_phase_completes denv s entries \<and>
      readdir_ok denv \<and> listing_distinct entries \<and> distinct (map fst (vault_dir s)) \<and>
      d \<in> set entries \<and> is_md_file d \<and>
      map_of (vault_dir s) (entry_name d) = Some f \<and> read_ok denv (entry_name d) \<and>
      local_updated denv (file_content f) = Some (Some l) \<and>
      client_modified d = Some t \<and> remote_time denv t = Some r \<and> r - l \<ge> 2000"
    show "\<exists>k \<ge> length (requests s). k < length (requests (snd (sync denv s))) \<and>
         requests (snd (sync denv s)) ! k = FilesDownload (path_lower d) \<and>
         (\<forall>body. api_download denv k = SdkResolves (Some body) \<longrightarrow>
            map_option file_content (map_of (vault_dir (snd (sync denv s))) (entry_name d)) = Some body \<and>
            SdkFilesUpload (''/notes/'' @ entry_name d) body \<in> set (sent_since s (snd (sync denv s)))) \<and>
         (api_download denv k = SdkResolves None \<longrightarrow>
            map_of (vault_dir (snd (sync denv s))) (entry_name d) = Some f)"
      using a by (intro desktop_remote_newer[of s denv entries d f l t r]) simp_all
  qed
  show "\<forall>l t r. dbx s \<and> localVaultPath s \<noteq> [] \<and> download_phase_completes denv s entries \<and>
      readdir_ok denv \<and> listing_distinct entries \<and> distinct (map fst (vault_dir s)) \<and>
      d \<in> set entries \<and> is_md_file d \<and>
      map_of (vault_dir s) (entry_name d) = Some f \<and> read_ok denv (entry_name d) \<and>
      local_updated denv (file_content f) = Some (Some l) \<and>
      client_modified d = Some t \<and> remote_time denv t = Some r \<and> r - l < 2000 \<longrightarrow>
      FilesDownload (path_lower d) \<notin> set (sent_since s (snd (sync denv s))) \<and>
      map_of (vault_dir (snd (sync denv s))) (entry_name d) = Some f \<and>
      SdkFilesUpload (''/notes/'' @ entry_name d) (file_content f)
        \<in> set (sent_since s (snd (sync denv s)))"
  proof (intro allI impI)
    fix l t r
    assume a: "dbx s \<and> localVaultPath s \<noteq> [] \<and> download_phase_completes denv s entries \<and>
      readdir_ok denv \<and> listing_distinct entries \<and> distinct (map fst (vault_dir s)) \<and>
      d \<in> set entries \<and> is_md_file d \<and>
      map_of (vault_dir s) (entry_name d) = Some f \<and> read_ok denv (entry_name d) \<and>
      local_updated denv (file_content f) = Some (Some l) \<and>
      client_modified d = Some t \<and> remote_time denv t = Some r \<and> r - l < 2000"
    have 1: "FilesDownload (path_lower d) \<notin> set (sent_since s (snd (sync denv s)))"
      using a by (intro desktop_within_tolerance(1)[of s denv entries d f l t r]) simp_all
    have 2: "map_of (vault_dir (snd (sync denv s))) (entry_name d) = Some f"
      using a by (intro desktop_within_tolerance(2)[of s denv entries d f l t r]) simp_all
    have 3: "SdkFilesUpload (''/notes/'' @ entry_name d) (file_content f)
        \<in> set (sent_since s (snd (sync denv s)))"
      using a by (intro desktop_within_tolerance(3)[of s denv entries d f l t r]) simp_all
    from 1 2 3 show "FilesDownload (path_lower d) \<notin> set (sent_since s (snd (sync denv s))) \<and>
      map_of (vault_dir (snd (sync denv s))) (entry_name d) = Some f \<and>
      SdkFilesUpload (''/notes/'' @ entry_name d) (file_content f)
        \<in> set (sent_since s (snd (sync denv s)))" by simp
  qed
qed

lemma ex_remote_parsed:
  "typed_parse ''2024-03-01T10:00:00.000Z'' ex_remote_text ''id1.md''
     = Some ((ex_mnote ''id1'' ''2024-01-01T00:00:00.000Z'' ''2024-03-01T10:00:05.000Z'')\<lparr>m_tags := [[]]\<rparr>)"
  by code_simp

lemma ex_remote_consistent: "remote_consistent (ex_mobile [ex_remote ''id1'' t]) [ex_remote ''id1'' t]"
proof -
  have i: "entry_noteId (ex_remote ''id1'' t) = ''id1''"
    unfolding entry_noteId_def ex_remote_def by code_simp
  have n: "entry_name (ex_remote ''id1'' t) = ''id1.md''" by (simp add: ex_remote_def)
  show ?thesis
    unfolding remote_consistent_def
    using i n ex_remote_parsed
    by (auto simp: ex_mobile_def remote_ids_def ex_mnote_def)
qed

text \<open>The theorem on passes at \<open>2024-03-01T10:00:00.000Z\<close> over the note \<open>id1\<close>, updated at
  that time: with the remote time one second later the mobile pass sends nothing for the
  note; with the remote time five seconds later the mobile pass downloads it and the desktop
  pass downloads the file and has the downloaded text in its place.\<close>

theorem tolerance_window_witness:
  "res_error (syncWithRemote (ex_mobile [ex_remote ''id1'' ''2024-03-01T10:00:01.000Z''])
      [ex_mnote ''id1'' ''2024-01-01T00:00:00.000Z'' ''2024-03-01T10:00:00.000Z'']) = None \<and>
   remote_consistent (ex_mobile [ex_remote ''id1'' ''2024-03-01T10:00:01.000Z''])
      [ex_remote ''id1'' ''2024-03-01T10:00:01.000Z''] \<and>
   \<bar>(1709287201000::int) - 1709287200000\<bar> < 2000 \<and>
   Download ''/notes/id1.md'' \<notin> set (res_calls
      (syncWithRemote (ex_mobile [ex_remote ''id1'' ''2024-03-01T10:00:01.000Z''])
         [ex_mnote ''id1'' ''2024-01-01T00:00:00.000Z'' ''2024-03-01T10:00:00.000Z''])) \<and>
   (\<forall>body. Upload ''/notes/id1.md'' body \<notin> set (res_calls
      (syncWithRemote (ex_mobile [ex_remote ''id1'' ''2024-03-01T10:00:01.000Z''])
         [ex_mnote ''id1'' ''2024-01-01T00:00:00.000Z'' ''2024-03-01T10:00:00.000Z'']))) \<and>
   res_error (syncWithRemote (ex_mobile [ex_remote ''id1'' ''2024-03-01T10:00:05.000Z''])
      [ex_mnote ''id1'' ''2024-01-01T00:00:00.000Z'' ''2024-03-01T10:00:00.000Z'']) = None \<and>
   Download ''/notes/id1.md'' \<in> set (res_calls
      (syncWithRemote (ex_mobile [ex_remote ''id1'' ''2024-03-01T10:00:05.000Z''])
         [ex_mnote ''id1'' ''2024-01-01T00:00:00.000Z'' ''2024-03-01T10:00:00.000Z''])) \<and>
   download_phase_completes (ex_full_sync [ex_remote ''id1'' ''2024-03-01T10:00:05.000Z''])
      (ex_desktop [] [(''id1.md'', ex_file (ex_now - 60000))])
      [ex_remote ''id1'' ''2024-03-01T10:00:05.000Z''] \<and>
   (\<exists>k. requests (snd (sync (ex_full_sync [ex_remote ''id1'' ''2024-03-01T10:00:05.000Z''])
            (ex_desktop [] [(''id1.md'', ex_file (ex_now - 60000))]))) ! k
          = FilesDownload ''/notes/id1.md'') \<and>
   map_option file_content (map_of (vault_dir (snd (sync
      (ex_full_sync [ex_remote ''id1'' ''2024-03-01T10:00:05.000Z''])
      (ex_desktop [] [(''id1.md'', ex_file (ex_now - 60000))])))) ''id1.md'') = Some ex_remote_text"
proof -
  let ?n = "ex_mnote ''id1'' ''2024-01-01T00:00:00.000Z'' ''2024-03-01T10:00:00.000Z''"
  let ?e1 = "ex_remote ''id1'' ''2024-03-01T10:00:01.000Z''"
  let ?e5 = "ex_remote ''id1'' ''2024-03-01T10:00:05.000Z''"
  let ?f = "ex_file (ex_now - 60000)"
  let ?s = "ex_desktop [] [(''id1.md'', ?f)]"
  let ?rt = "ex_full_sync [?e5]"
  have au: "\<And>es. authenticated (ex_mobile es)" "\<And>es. list_folder (ex_mobile es) = ListOk es"
    by (simp_all add: authenticated_def ex_mobile_def)
  have ok1: "res_error (syncWithRemote (ex_mobile [?e1]) [?n]) = None" by code_simp
  have ok5: "res_error (syncWithRemote (ex_mobile [?e5]) [?n]) = None" by code_simp
  have rc: "remote_consistent (ex_mobile [?e1]) [?e1]" "remote_consistent (ex_mobile [?e5]) [?e5]"
    by (rule ex_remote_consistent)+
  have md: "\<And>t. is_md_file (ex_remote ''id1'' t)"
  proof -
    fix t
    have "ends_with ''id1.md'' ''.md''" by code_simp
    then show "is_md_file (ex_remote ''id1'' t)" by (simp add: is_md_file_def ex_remote_def)
  qed
  have ids: "\<And>t. entry_noteId (ex_remote ''id1'' t) = m_id ?n"
  proof -
    fix t
    have "replace_first ''.md'' ''id1.md'' = ''id1''" by code_simp
    then show "entry_noteId (ex_remote ''id1'' t) = m_id ?n"
      by (simp add: entry_noteId_def ex_remote_def ex_mnote_def)
  qed
  have nm: "\<And>t. entry_name (ex_remote ''id1'' t) = m_id ?n @ ''.md''"
    "\<And>t. path_lower (ex_remote ''id1'' t) = ''/notes/id1.md''"
    "note_path (m_id ?n) = ''/notes/id1.md''"
    by (simp_all add: ex_remote_def ex_mnote_def note_path_def)
  have tl: "\<And>es. getTime (ex_mobile es) (m_updated ?n) = Some 1709287200000"
    by (simp add: ex_mobile_def ex_mnote_def ex_time_def)
  have t1: "date_of (ex_mobile [?e1]) (client_modified ?e1) = Some 1709287201000"
    by (simp add: date_of_def ex_mobile_def ex_remote_def ex_time_def)
  have t5: "date_of (ex_mobile [?e5]) (client_modified ?e5) = Some 1709287205000"
    by (simp add: date_of_def ex_mobile_def ex_remote_def ex_time_def)
  have w: "\<bar>(1709287201000::int) - 1709287200000\<bar> < 2000" by simp
  have m1: "Download ''/notes/id1.md'' \<notin> set (res_calls (syncWithRemote (ex_mobile [?e1]) [?n])) \<and>
      (\<forall>body. Upload ''/notes/id1.md'' body \<notin> set (res_calls (syncWithRemote (ex_mobile [?e1]) [?n])))"
    using tolerance_window[of "ex_mobile [?e1]" "[?e1]" "[?n]" ?n ?e1, THEN conjunct2, THEN conjunct1,
        rule_format, of 1709287200000 1709287201000]
      au ok1 rc(1) md ids nm tl t1 w
    by simp
  have m5: "Download ''/notes/id1.md'' \<in> set (res_calls (syncWithRemote (ex_mobile [?e5]) [?n]))"
    using tolerance_window[of "ex_mobile [?e5]" "[?e5]" "[?n]" ?n ?e5, THEN conjunct1,
        rule_format, of 1709287200000 1709287205000]
      au ok5 rc(2) md ids nm tl t5
    by simp
  have d1: "dbx ?s" "localVaultPath ?s \<noteq> []" "distinct (map fst (vault_dir ?s))"
    "map_of (vault_dir ?s) ''id1.md'' = Some ?f" "requests ?s = []"
    by (simp_all add: ex_desktop_def)
  have wd: "want_download ?rt (send FilesListFolder (?s\<lparr>sync_status := Syncing\<rparr>)) ?e5"
    by (simp add: want_download_def ex_full_sync_def ex_runtime_def ex_desktop_def ex_remote_def
        ex_file_def ex_time_def ex_now_def send_def)
  have d2: "download_phase_completes ?rt ?s [?e5]"
    using md[of "''2024-03-01T10:00:05.000Z''"] wd
    by (simp add: download_phase_completes_def download_entry_def Let_def)
      (simp add: ex_full_sync_def ex_runtime_def ex_desktop_def send_def)
  have d3: "readdir_ok ?rt" "read_ok ?rt ''id1.md''" "\<And>k. api_download ?rt k = SdkResolves (Some ex_remote_text)"
    by (simp_all add: ex_full_sync_def ex_runtime_def)
  have d4: "listing_distinct [?e5]" by (simp add: listing_distinct_def)
  have d5: "local_updated ?rt (file_content ?f) = Some (Some ex_now)"
    "client_modified ?e5 = Some ''2024-03-01T10:00:05.000Z''"
    "remote_time ?rt ''2024-03-01T10:00:05.000Z'' = Some 1709287205000"
    "(1709287205000::int) - ex_now \<ge> 2000"
    by (simp_all add: ex_full_sync_def ex_runtime_def ex_remote_def ex_time_def ex_now_def)
  have en: "entry_name ?e5 = ''id1.md''" by (simp add: ex_remote_def)
  have dd: "\<exists>k \<ge> length (requests ?s). k < length (requests (snd (sync ?rt ?s))) \<and>
         requests (snd (sync ?rt ?s)) ! k = FilesDownload (path_lower ?e5) \<and>
         (\<forall>body. api_download ?rt k = SdkResolves (Some body) \<longrightarrow>
            map_option file_content (map_of (vault_dir (snd (sync ?rt ?s))) (entry_name ?e5)) = Some body \<and>
            SdkFilesUpload (''/notes/'' @ entry_name ?e5) body \<in> set (sent_since ?s (snd (sync ?rt ?s)))) \<and>
         (api_download ?rt k = SdkResolves None \<longrightarrow>
            map_of (vault_dir (snd (sync ?rt ?s))) (entry_name ?e5) = Some ?f)"
    using tolerance_window[of _ _ _ _ _ ?s ?rt "[?e5]" ?e5 ?f, THEN conjunct2, THEN conjunct2,
        THEN conjunct1, rule_format, of ex_now "''2024-03-01T10:00:05.000Z''" 1709287205000]
      d1(1-3) d2 d3(1) d4 md[of "''2024-03-01T10:00:05.000Z''"] d1(4) d3(2) d5
    unfolding en by simp
  then obtain k where k: "requests (snd (sync ?rt ?s)) ! k = FilesDownload (path_lower ?e5)"
    "\<forall>body. api_download ?rt k = SdkResolves (Some body) \<longrightarrow>
       map_option file_content (map_of (vault_dir (snd (sync ?rt ?s))) (entry_name ?e5)) = Some body"
    by blast
  from k(2) d3(3) have c: "map_option file_content (map_of (vault_dir (snd (sync ?rt ?s))) ''id1.md'')
      = Some ex_remote_text" unfolding en by blast
  from k(1) have r: "\<exists>k. requests (snd (sync ?rt ?s)) ! k = FilesDownload ''/notes/id1.md''"
    unfolding nm(2) by blast
  from ok1 rc(1) w m1 ok5 m5 d2 r c show ?thesis by simp
qed

text \<open>Claim C3 as stated fails for the desktop manager: the remote time of the note file
  \<open>id1.md\<close> is one second above the \<open>updated\<close> time in the local file, within the
  tolerance, and the pass uploads the file.\<close>

theorem desktop_uploads_within_tolerance_counterexample:
  "local_updated (ex_full_sync [ex_remote ''id1'' ''2024-03-01T10:00:01.000Z''])
      (file_content (ex_file (ex_now - 60000))) = Some (Some ex_now) \<and>
   remote_time (ex_full_sync [ex_remote ''id1'' ''2024-03-01T10:00:01.000Z''])
      ''2024-03-01T10:00:01.000Z'' = Some (ex_now + 1000) \<and>
   \<bar>(ex_now + 1000) - ex_now\<bar> < 2000 \<and>
   requests (snd (sync (ex_full_sync [ex_remote ''id1'' ''2024-03-01T10:00:01.000Z''])
      (ex_desktop [] [(''id1.md'', ex_file (ex_now - 60000))])))
     = [FilesListFolder, SdkFilesUpload ''/notes/id1.md'' scenario_text]"
proof -
  let ?e = "ex_remote ''id1'' ''2024-03-01T10:00:01.000Z''"
  let ?rt = "ex_full_sync [?e]"
  let ?s = "ex_desktop [] [(''id1.md'', ex_file (ex_now - 60000))]"
  have a: "local_updated ?rt (file_content (ex_file (ex_now - 60000))) = Some (Some ex_now)"
    "remote_time ?rt ''2024-03-01T10:00:01.000Z'' = Some (ex_now + 1000)"
    by (simp_all add: ex_full_sync_def ex_runtime_def ex_time_def ex_now_def)
  have s: "requests (snd (sync ?rt ?s))
             = [FilesListFolder, SdkFilesUpload ''/notes/id1.md'' scenario_text]"
    by code_simp
  from a s show ?thesis by simp
qed

end
